theory Spec2Isabelle
  imports Complex_Main "HOL-Library.AList"
begin

section \<open>Values, documents and errors\<close>

text \<open>
  Python values that travel through the adapter: metadata values, filter values and stored
  documents.  A dict is an association list in insertion order; item assignment is
  \<open>AList.update\<close> (replace in place, else append), as for a Python dict.  Floats are only
  carried, never computed with, and are represented by rationals.
\<close>

datatype pyval =
    PNone
  | PBool bool
  | PInt int
  | PFloat rat
  | PStr string
  | PList "pyval list"
  | PDict "(string \<times> pyval) list"

type_synonym pydict = "(string \<times> pyval) list"
type_synonym document = pydict
type_synonym vector = "rat list"
type_synonym addr = nat

datatype error =
    ValueError
  | TypeError
  | KeyError
  | AttributeError
  | IndexError
  | ImportError
  | CollectionInvalid

text \<open>The calls the adapter makes on the document-store client, in the order made.\<close>

datatype call =
    ListCollectionNames
  | CreateCollection string
  | DropCollection string
  | Find string document "int option"
  | InsertOne string document
  | DeleteMany string document
  | CountDocuments string document

section \<open>Configuration\<close>

record MongoDbConfig =
  uri :: "string option"
  cfg_collection_name :: "string option"
  username :: "string option"
  database_name :: "string option"
  password :: "string option"
  replica_set :: "string option"
  retry_writes :: "bool option"
  app_name :: "string option"

text \<open>
  \<open>MongoDbConfig.__init__\<close>: stores its eight arguments, then calls the base configuration's
  constructor with the collection name.  \<open>BaseVectorDbConfig\<close> is not part of the sources at
  hand, so its constructor is the parameter \<open>base\<close>.
\<close>

definition MongoDbConfig_init ::
  "(string option \<Rightarrow> MongoDbConfig \<Rightarrow> MongoDbConfig) \<Rightarrow> string option \<Rightarrow> string option \<Rightarrow>
   string option \<Rightarrow> string option \<Rightarrow> string option \<Rightarrow> string option \<Rightarrow> bool option \<Rightarrow>
   string option \<Rightarrow> MongoDbConfig" where
  "MongoDbConfig_init base collection_name' uri' database_name' username' password'
     replica_set' retry_writes' app_name' =
   base collection_name'
     \<lparr> uri = uri', cfg_collection_name = collection_name', username = username',
       database_name = database_name', password = password', replica_set = replica_set',
       retry_writes = retry_writes', app_name = app_name' \<rparr>"

text \<open>\<open>MongoDBConfig()\<close>: every argument at its default.\<close>

definition default_config :: "(string option \<Rightarrow> MongoDbConfig \<Rightarrow> MongoDbConfig) \<Rightarrow> MongoDbConfig" where
  "default_config base = MongoDbConfig_init base None None None None None None (Some True) None"

section \<open>State\<close>

text \<open>
  One record holds the adapter object (\<open>config\<close>, \<open>collection_name\<close>, \<open>embedder\<close>), the
  collections of the database \<open>self.db\<close> on the server, the caller's objects that \<open>add\<close>
  receives by reference (\<open>heap\<close>), and the trace of client calls.
  \<open>collection_name = None\<close> is the attribute not yet assigned; \<open>Some None\<close> is the attribute
  holding Python's \<open>None\<close>.
\<close>

record state =
  config :: MongoDbConfig
  collection_name :: "string option option"
  embedder :: "(string list \<Rightarrow> vector list) option"
  collections :: "string \<rightharpoonup> document list"
  heap :: "addr \<Rightarrow> pyval"
  calls :: "call list"

type_synonym 'a result = "(error + 'a) \<times> state"

section \<open>The document store\<close>

text \<open>
  The store is an external collaborator.  Its operations are modelled after the contract the
  adapter relies on: a filter is a conjunction of its entries, and what a single entry
  \<open>key: condition\<close> means for a document is the store's business, the parameter \<open>sat\<close>.
  A collection that does not exist reads as empty, is created by the first insert, and is
  left absent by a delete.  The client refuses a collection name that is not a string.
  Records come back in the order they were inserted.  \<open>find\<close> takes an integer limit, 0
  meaning no limit; a limit that is not an integer (\<open>None\<close>) is refused by the client with
  \<open>TypeError\<close>, before anything is sent to the store.
  Left out: the \<open>_id\<close> the store adds to every record, the order in which \<open>$near\<close> ranks
  records, and failures of the store itself (connection loss, write conflicts), which the
  adapter hands on unchanged.
\<close>

definition matches :: "(string \<Rightarrow> pyval \<Rightarrow> document \<Rightarrow> bool) \<Rightarrow> document \<Rightarrow> document \<Rightarrow> bool" where
  "matches sat q d = list_all (\<lambda>(k, c). sat k c d) q"

fun limited :: "int option \<Rightarrow> 'a list \<Rightarrow> 'a list" where
  "limited None xs = xs"
| "limited (Some n) xs = (if n = 0 then xs else take (nat \<bar>n\<bar>) xs)"

definition docs_of :: "state \<Rightarrow> string \<Rightarrow> document list" where
  "docs_of s n = (case collections s n of None \<Rightarrow> [] | Some ds \<Rightarrow> ds)"

text \<open>\<open>self.db[self.collection_name]\<close>: reads the attribute and asks the client for the collection.\<close>

definition coll :: "state \<Rightarrow> error + string" where
  "coll s = (case collection_name s of
               None \<Rightarrow> Inl AttributeError
             | Some None \<Rightarrow> Inl TypeError
             | Some (Some n) \<Rightarrow> Inr n)"

definition coll_find ::
  "(string \<Rightarrow> pyval \<Rightarrow> document \<Rightarrow> bool) \<Rightarrow> state \<Rightarrow> document \<Rightarrow> int option \<Rightarrow> document list result" where
  "coll_find sat s q lmt =
     (case coll s of
        Inl e \<Rightarrow> (Inl e, s)
      | Inr n \<Rightarrow>
          (case lmt of
             None \<Rightarrow> (Inl TypeError, s)
           | Some l \<Rightarrow> (Inr (limited (Some l) (filter (matches sat q) (docs_of s n))),
                       s\<lparr>calls := calls s @ [Find n q (Some l)]\<rparr>)))"

definition coll_insert_one :: "state \<Rightarrow> document \<Rightarrow> unit result" where
  "coll_insert_one s doc =
     (case coll s of
        Inl e \<Rightarrow> (Inl e, s)
      | Inr n \<Rightarrow> (Inr (),
                 s\<lparr>collections := (collections s)(n \<mapsto> docs_of s n @ [doc]),
                   calls := calls s @ [InsertOne n doc]\<rparr>))"

definition coll_delete_many ::
  "(string \<Rightarrow> pyval \<Rightarrow> document \<Rightarrow> bool) \<Rightarrow> state \<Rightarrow> document \<Rightarrow> unit result" where
  "coll_delete_many sat s q =
     (case coll s of
        Inl e \<Rightarrow> (Inl e, s)
      | Inr n \<Rightarrow> (Inr (),
                 s\<lparr>collections :=
                     (collections s)(n := map_option (filter (\<lambda>d. \<not> matches sat q d)) (collections s n)),
                   calls := calls s @ [DeleteMany n q]\<rparr>))"

definition coll_count_documents ::
  "(string \<Rightarrow> pyval \<Rightarrow> document \<Rightarrow> bool) \<Rightarrow> state \<Rightarrow> document \<Rightarrow> int result" where
  "coll_count_documents sat s q =
     (case coll s of
        Inl e \<Rightarrow> (Inl e, s)
      | Inr n \<Rightarrow> (Inr (int (length (filter (matches sat q) (docs_of s n)))),
                 s\<lparr>calls := calls s @ [CountDocuments n q]\<rparr>))"

definition db_drop_collection :: "state \<Rightarrow> unit result" where
  "db_drop_collection s =
     (case coll s of
        Inl e \<Rightarrow> (Inl e, s)
      | Inr n \<Rightarrow> (Inr (),
                 s\<lparr>collections := (collections s)(n := None), calls := calls s @ [DropCollection n]\<rparr>))"

definition db_list_collection_names :: "state \<Rightarrow> (string \<Rightarrow> bool) \<times> state" where
  "db_list_collection_names s =
     (\<lambda>n. collections s n \<noteq> None, s\<lparr>calls := calls s @ [ListCollectionNames]\<rparr>)"

definition db_create_collection :: "state \<Rightarrow> string option \<Rightarrow> unit result" where
  "db_create_collection s name =
     (case name of
        None \<Rightarrow> (Inl TypeError, s)
      | Some n \<Rightarrow>
          (if collections s n \<noteq> None
           then (Inl CollectionInvalid, s\<lparr>calls := calls s @ [CreateCollection n]\<rparr>)
           else (Inr (), s\<lparr>collections := (collections s)(n \<mapsto> []),
                           calls := calls s @ [CreateCollection n]\<rparr>)))"

section \<open>The adapter\<close>

subsection \<open>Item access\<close>

text \<open>\<open>obj[key] = value\<close> with a string key: only a dict accepts it.\<close>

fun setitem :: "pyval \<Rightarrow> string \<Rightarrow> pyval \<Rightarrow> error + pyval" where
  "setitem (PDict d) k v = Inr (PDict (AList.update k v d))"
| "setitem _ k v = Inl TypeError"

text \<open>\<open>doc[key]\<close> on a document returned by the store.\<close>

definition getitem :: "document \<Rightarrow> string \<Rightarrow> error + pyval" where
  "getitem d k = (case map_of d k of None \<Rightarrow> Inl KeyError | Some v \<Rightarrow> Inr v)"

text \<open>\<open>doc.get(key, default)\<close>.\<close>

definition get_default :: "document \<Rightarrow> string \<Rightarrow> pyval \<Rightarrow> pyval" where
  "get_default d k dflt = (case map_of d k of None \<Rightarrow> dflt | Some v \<Rightarrow> v)"

text \<open>\<open>query.update(other)\<close>: assigns every item of \<open>other\<close> in turn.\<close>

definition dict_update :: "pydict \<Rightarrow> pydict \<Rightarrow> pydict" where
  "dict_update q other = foldl (\<lambda>acc (k, v). AList.update k v acc) q other"

text \<open>\<open>embedding.tolist()\<close>.\<close>

definition tolist :: "vector \<Rightarrow> pyval" where
  "tolist v = PList (map PFloat v)"

subsection \<open>Filter translation\<close>

text \<open>The comprehension \<open>{"metadata." + k: v for k, v in where.items()}\<close> of get, query and delete.\<close>

definition metadata_filter :: "pydict \<Rightarrow> pydict" where
  "metadata_filter wh = foldl (\<lambda>acc (k, v). AList.update (''metadata.'' @ k) v acc) [] wh"

text \<open>\<open>_generate_query\<close>: the same translation written as a loop.\<close>

fun generate_query_loop :: "pydict \<Rightarrow> pydict \<Rightarrow> pydict" where
  "generate_query_loop query [] = query"
| "generate_query_loop query ((key, val) # items) =
     generate_query_loop (AList.update (''metadata.'' @ key) val query) items"

definition generate_query :: "pydict \<Rightarrow> pydict" where
  "generate_query wh = generate_query_loop [] wh"

subsection \<open>Initialisation\<close>

definition get_or_create_collection :: "state \<Rightarrow> string option" where
  "get_or_create_collection s = cfg_collection_name (config s)"

text \<open>\<open>_initialize\<close>.  \<open>self.embedder\<close> is \<open>None\<close> until an embedder has been set.\<close>

definition initialize :: "state \<Rightarrow> unit result" where
  "initialize s =
     (if embedder s = None then (Inl ValueError, s)
      else
        let s1 = s\<lparr>collection_name := Some (get_or_create_collection s)\<rparr>;
            (names, s2) = db_list_collection_names s1
        in if \<not> (case get_or_create_collection s of None \<Rightarrow> False | Some n \<Rightarrow> names n)
           then db_create_collection s2 (get_or_create_collection s)
           else (Inr (), s2))"

subsection \<open>get\<close>

fun get_loop :: "document list \<Rightarrow> pyval list \<Rightarrow> pyval list \<Rightarrow> error + (pyval list \<times> pyval list)" where
  "get_loop [] existing_ids metadatas = Inr (existing_ids, metadatas)"
| "get_loop (doc # cursor) existing_ids metadatas =
     (case getitem doc ''identifier'' of
        Inl e \<Rightarrow> Inl e
      | Inr i \<Rightarrow>
          (case getitem doc ''metadata'' of
             Inl e \<Rightarrow> Inl e
           | Inr m \<Rightarrow> get_loop cursor (existing_ids @ [i]) (metadatas @ [m])))"

text \<open>The filter \<open>get\<close> builds before it calls \<open>find\<close> (an empty list or dict is falsy).\<close>

definition get_query :: "string list option \<Rightarrow> pydict option \<Rightarrow> pydict" where
  "get_query ids wh =
     (let query = [];
          query = (case ids of
                     Some (i # is) \<Rightarrow>
                       AList.update ''identifier'' (PDict [(''$in'', PList (map PStr (i # is)))]) query
                   | _ \<Rightarrow> query);
          query = (case wh of
                     Some (kv # kvs) \<Rightarrow> dict_update query (metadata_filter (kv # kvs))
                   | _ \<Rightarrow> query)
      in query)"

text \<open>The result \<open>{"ids": existing_ids, "metadatas": metadatas}\<close> is the pair of the two lists.\<close>

definition get ::
  "(string \<Rightarrow> pyval \<Rightarrow> document \<Rightarrow> bool) \<Rightarrow> state \<Rightarrow> string list option \<Rightarrow> pydict option \<Rightarrow>
   int option \<Rightarrow> (pyval list \<times> pyval list) result" where
  "get sat s ids wh lmt =
     (case coll_find sat s (get_query ids wh) lmt of
        (Inl e, s') \<Rightarrow> (Inl e, s')
      | (Inr cursor, s') \<Rightarrow>
          (case get_loop cursor [] [] of
             Inl e \<Rightarrow> (Inl e, s')
           | Inr r \<Rightarrow> (Inr r, s')))"

subsection \<open>add\<close>

text \<open>
  The loop of \<open>add\<close> over the zipped tuples.  \<open>m\<close> is the address of the caller's metadata
  object: the assignment \<open>metadata["text"] = document\<close> changes that object, and the document
  handed to the store carries a copy of its value.
\<close>

fun add_loop :: "state \<Rightarrow> (string \<times> string \<times> addr \<times> vector) list \<Rightarrow> unit result" where
  "add_loop s [] = (Inr (), s)"
| "add_loop s ((id', document, m, embedding) # rest) =
     (case setitem (heap s m) ''text'' (PStr document) of
        Inl e \<Rightarrow> (Inl e, s)
      | Inr metadata \<Rightarrow>
          (let s1 = s\<lparr>heap := (heap s)(m := metadata)\<rparr>;
               doc = [(''identifier'', PStr id'),
                      (''text'', PStr document),
                      (''metadata'', metadata),
                      (''embedding'', tolist embedding)]
           in case coll_insert_one s1 doc of
                (Inl e, s2) \<Rightarrow> (Inl e, s2)
              | (Inr u, s2) \<Rightarrow> add_loop s2 rest))"

definition add :: "state \<Rightarrow> string list \<Rightarrow> addr list \<Rightarrow> string list \<Rightarrow> unit result" where
  "add s documents metadatas ids =
     (case embedder s of
        None \<Rightarrow> (Inl AttributeError, s)
      | Some embedding_fn \<Rightarrow>
          add_loop s (zip ids (zip documents (zip metadatas (embedding_fn documents)))))"

subsection \<open>query\<close>

datatype hit = Text pyval | Cited pyval pyval

fun query_loop :: "bool \<Rightarrow> document list \<Rightarrow> hit list \<Rightarrow> error + hit list" where
  "query_loop citations [] contexts = Inr contexts"
| "query_loop citations (doc # cursor) contexts =
     (case getitem doc ''text'' of
        Inl e \<Rightarrow> Inl e
      | Inr ctx \<Rightarrow>
          (if citations then
             (case getitem doc ''metadata'' of
                Inl e \<Rightarrow> Inl e
              | Inr metadata \<Rightarrow>
                  (case setitem metadata ''score'' (get_default doc ''score'' (PInt 0)) of
                     Inl e \<Rightarrow> Inl e
                   | Inr metadata' \<Rightarrow> query_loop citations cursor (contexts @ [Cited ctx metadata'])))
           else query_loop citations cursor (contexts @ [Text ctx])))"

definition query_filter :: "vector \<Rightarrow> pydict \<Rightarrow> pydict" where
  "query_filter query_vector wh =
     (let query = [(''embedding'', PDict [(''$near'', tolist query_vector)])]
      in if wh \<noteq> [] then dict_update query (metadata_filter wh) else query)"

definition query ::
  "(string \<Rightarrow> pyval \<Rightarrow> document \<Rightarrow> bool) \<Rightarrow> state \<Rightarrow> string \<Rightarrow> int \<Rightarrow> pydict \<Rightarrow> bool \<Rightarrow>
   hit list result" where
  "query sat s input_query n_results wh citations =
     (case embedder s of
        None \<Rightarrow> (Inl AttributeError, s)
      | Some embedding_fn \<Rightarrow>
          (case embedding_fn [input_query] of
             [] \<Rightarrow> (Inl IndexError, s)
           | query_vector # _ \<Rightarrow>
               (case coll_find sat s (query_filter query_vector wh) (Some n_results) of
                  (Inl e, s') \<Rightarrow> (Inl e, s')
                | (Inr cursor, s') \<Rightarrow>
                    (case query_loop citations cursor [] of
                       Inl e \<Rightarrow> (Inl e, s')
                     | Inr contexts \<Rightarrow> (Inr contexts, s')))))"

subsection \<open>count, reset, set_collection_name, delete\<close>

definition count :: "(string \<Rightarrow> pyval \<Rightarrow> document \<Rightarrow> bool) \<Rightarrow> state \<Rightarrow> int result" where
  "count sat s = coll_count_documents sat s []"

definition reset :: "state \<Rightarrow> unit result" where
  "reset s =
     (case db_drop_collection s of
        (Inl e, s') \<Rightarrow> (Inl e, s')
      | (Inr u, s') \<Rightarrow> initialize s')"

definition set_collection_name :: "state \<Rightarrow> pyval \<Rightarrow> unit result" where
  "set_collection_name s name =
     (case name of
        PStr n \<Rightarrow>
          (let s1 = s\<lparr>config := (config s)\<lparr>cfg_collection_name := Some n\<rparr>\<rparr>
           in (Inr (), s1\<lparr>collection_name := Some (get_or_create_collection s1)\<rparr>))
      | _ \<Rightarrow> (Inl TypeError, s))"

definition delete_where ::
  "(string \<Rightarrow> pyval \<Rightarrow> document \<Rightarrow> bool) \<Rightarrow> state \<Rightarrow> pydict \<Rightarrow> unit result" where
  "delete_where sat s wh = coll_delete_many sat s (metadata_filter wh)"

subsection \<open>Construction\<close>

text \<open>
  What a caller can pass as \<open>config\<close>: nothing, an instance of the configuration class, or
  any other object.
\<close>

datatype config_arg = NoConfig | ConfigInstance MongoDbConfig | OtherObject pyval

text \<open>
  What exists outside the adapter object when it is constructed: the clients created so far,
  each with the URI it was given (\<open>MongoClient(os.getenv("MONGODB_URI"))\<close>).
\<close>

record world =
  mongodb_uri :: "string option"
  clients :: "string option list"

text \<open>
  Loading the adapter module.  Its line 10 is
  \<open>from embedchain.config.vector_db.mongodb import MongoDBConfig\<close>.  The names the
  configuration module binds at its top level are its three imports and the one class it
  defines; importing a name that is not among them raises \<open>ImportError\<close>.
\<close>

definition config_module_names :: "string list" where
  "config_module_names =
     [''Optional'', ''BaseVectorDbConfig'', ''register_deserializable'', ''MongoDbConfig'']"

definition import_from :: "string list \<Rightarrow> string \<Rightarrow> error + unit" where
  "import_from names name = (if name \<in> set names then Inr () else Inl ImportError)"

definition load_adapter_module :: "error + unit" where
  "load_adapter_module = import_from config_module_names ''MongoDBConfig''"

text \<open>
  The body of \<open>__init__\<close>, lines 23 to 34, with the name \<open>MongoDBConfig\<close> standing for the
  configuration class.  After the type check it assigns \<open>self.config\<close>, creates the client,
  and asks the client for the database \<open>self.client[self.config.database_name]\<close>, which the
  client refuses with \<open>TypeError\<close> when the name is not a string.  The constructor of
  \<open>BaseVectorDB\<close> is not part of the sources at hand and is the parameter \<open>super_init\<close>;
  the constructor of the base configuration is \<open>base\<close>.  The new object starts on the
  collections \<open>cs\<close> of that database, with no \<open>collection_name\<close> and no embedder yet.
\<close>

definition MongoDB_init ::
  "(string option \<Rightarrow> MongoDbConfig \<Rightarrow> MongoDbConfig) \<Rightarrow> (state \<Rightarrow> error + state) \<Rightarrow>
   (string \<rightharpoonup> document list) \<Rightarrow> (addr \<Rightarrow> pyval) \<Rightarrow> world \<Rightarrow> config_arg \<Rightarrow> (error + state) \<times> world" where
  "MongoDB_init base super_init cs h w cfg =
     (case (case cfg of
              NoConfig \<Rightarrow> Inr (default_config base)
            | ConfigInstance c \<Rightarrow> Inr c
            | OtherObject x \<Rightarrow> Inl TypeError) of
        Inl e \<Rightarrow> (Inl e, w)
      | Inr c \<Rightarrow>
          (let w1 = w\<lparr>clients := clients w @ [mongodb_uri w]\<rparr>
           in case database_name c of
                None \<Rightarrow> (Inl TypeError, w1)
              | Some db_name \<Rightarrow>
                  (super_init \<lparr> config = c, collection_name = None, embedder = None,
                                collections = cs, heap = h, calls = [] \<rparr>,
                   w1)))"

text \<open>
  \<open>MongoDB(config)\<close> as a caller writes it: the adapter module has to load before its class
  can be called.
\<close>

definition MongoDB_new ::
  "(string option \<Rightarrow> MongoDbConfig \<Rightarrow> MongoDbConfig) \<Rightarrow> (state \<Rightarrow> error + state) \<Rightarrow>
   (string \<rightharpoonup> document list) \<Rightarrow> (addr \<Rightarrow> pyval) \<Rightarrow> world \<Rightarrow> config_arg \<Rightarrow> (error + state) \<times> world" where
  "MongoDB_new base super_init cs h w cfg =
     (case load_adapter_module of
        Inl e \<Rightarrow> (Inl e, w)
      | Inr u \<Rightarrow> MongoDB_init base super_init cs h w cfg)"

section \<open>The filter translation rule, as specified\<close>

text \<open>
  The rule in the words of the specification: every key \<open>k\<close> of \<open>where\<close> becomes the
  key \<open>"metadata." + k\<close>, with its value unchanged.  The filters the code builds are compared
  with this list.
\<close>

definition spec_filter :: "pydict \<Rightarrow> pydict" where
  "spec_filter wh = map (\<lambda>(k, v). (''metadata.'' @ k, v)) wh"

section \<open>Concrete instances\<close>

definition example_embedder :: "string list \<Rightarrow> vector list" where
  "example_embedder docs = map (\<lambda>d. [of_nat (length d), 1]) docs"

definition example_config :: MongoDbConfig where
  "example_config =
     \<lparr> uri = None, cfg_collection_name = Some ''notes'', username = None,
       database_name = Some ''rag'', password = None, replica_set = None,
       retry_writes = Some True, app_name = None \<rparr>"

text \<open>An adapter as its constructor leaves it: no embedder, no collection name.\<close>

definition fresh_state :: state where
  "fresh_state =
     \<lparr> config = example_config, collection_name = None, embedder = None,
       collections = Map.empty, heap = (\<lambda>a. PDict []), calls = [] \<rparr>"

definition example_where :: pydict where
  "example_where = [(''source'', PStr ''web''), (''year'', PInt 2024)]"

text \<open>
  A reference instance of the store's matching rule: a key is a dotted path into the
  document, \<open>$in\<close> asks for membership, \<open>$near\<close> for the field to exist, and any other
  condition for equality.
\<close>

fun split_dots :: "string \<Rightarrow> string \<Rightarrow> string list" where
  "split_dots acc [] = [acc]"
| "split_dots acc (c # cs) = (if c = CHR ''.'' then acc # split_dots [] cs else split_dots (acc @ [c]) cs)"

fun lookup_path :: "string list \<Rightarrow> pyval \<Rightarrow> pyval option" where
  "lookup_path [] v = Some v"
| "lookup_path (k # ks) (PDict d) = (case map_of d k of None \<Rightarrow> None | Some v \<Rightarrow> lookup_path ks v)"
| "lookup_path (k # ks) v = None"

fun operator :: "pyval \<Rightarrow> (string \<times> pyval) option" where
  "operator (PDict [(k, v)]) = (if k = ''$in'' \<or> k = ''$near'' then Some (k, v) else None)"
| "operator v = None"

definition example_sat :: "string \<Rightarrow> pyval \<Rightarrow> document \<Rightarrow> bool" where
  "example_sat key cond d =
     (let field = lookup_path (split_dots [] key) (PDict d) in
      case operator cond of
        None \<Rightarrow> field = Some cond
      | Some (opr, arg) \<Rightarrow>
          (if opr = ''$in''
           then (case (field, arg) of (Some v, PList vs) \<Rightarrow> v \<in> set vs | _ \<Rightarrow> False)
           else field \<noteq> None))"

text \<open>A stored record as \<open>add\<close> writes it, and an initialised adapter over three of them.\<close>

definition example_doc :: "string \<Rightarrow> string \<Rightarrow> string \<Rightarrow> document" where
  "example_doc i t src =
     [(''identifier'', PStr i), (''text'', PStr t),
      (''metadata'', PDict [(''source'', PStr src), (''text'', PStr t)]),
      (''embedding'', tolist [of_nat (length t), 1])]"

definition example_state :: state where
  "example_state =
     \<lparr> config = example_config, collection_name = Some (Some ''notes''),
       embedder = Some example_embedder,
       collections = [''notes'' \<mapsto> [example_doc ''a'' ''alpha'' ''web'',
                                      example_doc ''b'' ''beta'' ''pdf'',
                                      example_doc ''c'' ''gamma'' ''web'']],
       heap = (\<lambda>a. PDict []), calls = [] \<rparr>"

text \<open>
  The base configuration's constructor as the framework is known to use it: it keeps a given
  collection name, supplies one when none is given, and leaves the other attributes alone.
\<close>

definition example_base :: "string option \<Rightarrow> MongoDbConfig \<Rightarrow> MongoDbConfig" where
  "example_base n c =
     c\<lparr>cfg_collection_name := (case n of None \<Rightarrow> Some ''embedchain_store'' | Some x \<Rightarrow> Some x)\<rparr>"

definition example_world :: world where
  "example_world = \<lparr> mongodb_uri = None, clients = [] \<rparr>"

text \<open>
  An adapter whose \<open>collection_name\<close> attribute still names the collection \<open>old\<close> while its
  configuration names \<open>notes\<close>: the state of an adapter after another adapter that shares
  the configuration object has called \<open>set_collection_name\<close>.
\<close>

definition drift_state :: state where
  "drift_state = example_state\<lparr>collection_name := Some (Some ''old'')\<rparr>"

section \<open>Stored records\<close>

text \<open>
  The shape of a record of the data model: an identifier and a text that are strings, and a
  metadata mapping.  Further fields (the embedding, a score) may be present.
\<close>

definition wf_doc :: "document \<Rightarrow> bool" where
  "wf_doc d =
     ((case map_of d ''identifier'' of Some (PStr i) \<Rightarrow> True | _ \<Rightarrow> False)
      \<and> (case map_of d ''text'' of Some (PStr t) \<Rightarrow> True | _ \<Rightarrow> False)
      \<and> (case map_of d ''metadata'' of Some (PDict m) \<Rightarrow> True | _ \<Rightarrow> False))"

text \<open>
  What \<open>query\<close> is to return for a record: its text, and with citations the metadata with
  \<open>score\<close> set to the record's score, or to 0 when the record has none.
\<close>

definition hit_rel :: "bool \<Rightarrow> document \<Rightarrow> hit \<Rightarrow> bool" where
  "hit_rel c d h =
     (\<exists>t md. map_of d ''text'' = Some (PStr t)
           \<and> map_of d ''metadata'' = Some (PDict md)
           \<and> h = (if c then Cited (PStr t)
                          (PDict (AList.update ''score'' (get_default d ''score'' (PInt 0)) md))
                  else Text (PStr t)))"

section \<open>The record that add stores\<close>

text \<open>
  The value of a metadata object after \<open>metadata["text"] = document\<close> (an object that is
  not a dict is left alone here: the assignment fails on it), and the document that one
  iteration of the loop of \<open>add\<close> hands to the store, as functions of the tuple and of the
  caller's objects.
\<close>

fun set_text :: "string \<Rightarrow> pyval \<Rightarrow> pyval" where
  "set_text document (PDict md) = PDict (AList.update ''text'' (PStr document) md)"
| "set_text document obj = obj"

definition stored_record :: "string \<times> string \<times> addr \<times> vector \<Rightarrow> (addr \<Rightarrow> pyval) \<Rightarrow> document" where
  "stored_record tup h =
     (case tup of (id', document, m, embedding) \<Rightarrow>
        [(''identifier'', PStr id'),
         (''text'', PStr document),
         (''metadata'', set_text document (h m)),
         (''embedding'', tolist embedding)])"

text \<open>An initialised adapter and a caller whose object 7 is a metadata mapping.\<close>

definition caller_state :: state where
  "caller_state = example_state\<lparr>heap := (\<lambda>a. PNone)(7 := PDict [(''source'', PStr ''web'')])\<rparr>"

section \<open>Dictionaries built by repeated assignment\<close>

lemma update_fresh: "k \<notin> fst ` set al \<Longrightarrow> AList.update k v al = al @ [(k, v)]"
  by (induction al) auto

lemma fold_update_append:
  "distinct (map fst kvs) \<Longrightarrow> fst ` set kvs \<inter> fst ` set acc = {} \<Longrightarrow>
   foldl (\<lambda>acc (k, v). AList.update k v acc) acc kvs = acc @ kvs"
proof (induction kvs arbitrary: acc)
  case Nil
  then show ?case by simp
next
  case (Cons kv kvs)
  obtain k v where kv: "kv = (k, v)" by (cases kv)
  from Cons.prems have fresh: "k \<notin> fst ` set acc" by (auto simp: kv)
  have "fst ` set kvs \<inter> fst ` set (acc @ [(k, v)]) = {}"
    using Cons.prems by (auto simp: kv)
  moreover have "distinct (map fst kvs)" using Cons.prems by simp
  ultimately have "foldl (\<lambda>acc (k, v). AList.update k v acc) (acc @ [(k, v)]) kvs = (acc @ [(k, v)]) @ kvs"
    by (rule Cons.IH[rotated])
  then show ?case by (simp add: kv update_fresh[OF fresh])
qed

lemma metadata_filter_fold:
  "foldl (\<lambda>acc (k, v). AList.update (''metadata.'' @ k) v acc) acc wh =
   foldl (\<lambda>acc (k, v). AList.update k v acc) acc (spec_filter wh)"
  by (induction wh arbitrary: acc) (auto simp: spec_filter_def)

lemma spec_filter_keys: "map fst (spec_filter wh) = map (\<lambda>k. ''metadata.'' @ k) (map fst wh)"
  by (induction wh) (auto simp: spec_filter_def)

lemma distinct_spec_filter: "distinct (map fst wh) \<Longrightarrow> distinct (map fst (spec_filter wh))"
  by (simp add: spec_filter_keys distinct_map inj_on_def)

lemma metadata_filter_spec: "distinct (map fst wh) \<Longrightarrow> metadata_filter wh = spec_filter wh"
  unfolding metadata_filter_def metadata_filter_fold
  using fold_update_append[of "spec_filter wh" "[]"] by (simp add: distinct_spec_filter)

lemma generate_query_loop_fold:
  "generate_query_loop q wh = foldl (\<lambda>acc (k, v). AList.update (''metadata.'' @ k) v acc) q wh"
  by (induction q wh rule: generate_query_loop.induct) auto

lemma dict_update_spec:
  assumes "distinct (map fst wh)" and "\<And>k. ''metadata.'' @ k \<notin> fst ` set q"
  shows "dict_update q (spec_filter wh) = q @ spec_filter wh"
proof -
  have "fst ` set (spec_filter wh) \<inter> fst ` set q = {}"
    using assms(2) by (force simp: spec_filter_def image_iff)
  with distinct_spec_filter[OF assms(1)] show ?thesis
    unfolding dict_update_def by (rule fold_update_append)
qed

section \<open>Filter translation\<close>

text \<open>
  Claim C1.  For a \<open>where\<close> mapping (a dict: its keys are distinct), the filter built by
  \<open>_generate_query\<close>, by \<open>delete\<close>, and the part that \<open>get\<close> and \<open>query\<close> add to their own
  entry, is the list of the specification: one entry \<open>"metadata." + k\<close> per key \<open>k\<close>, in order,
  with the value unchanged, and nothing else.
\<close>

theorem filter_translation:
  assumes "distinct (map fst wh)"
  shows "generate_query wh = spec_filter wh
       \<and> metadata_filter wh = spec_filter wh
       \<and> delete_where sat s wh = coll_delete_many sat s (spec_filter wh)
       \<and> get_query ids (Some wh) = get_query ids None @ spec_filter wh
       \<and> query_filter v wh = query_filter v [] @ spec_filter wh"
proof -
  have m: "metadata_filter wh = spec_filter wh"
    by (rule metadata_filter_spec[OF assms])
  have g: "generate_query wh = spec_filter wh"
    using m by (simp add: generate_query_def generate_query_loop_fold metadata_filter_def)
  have d: "delete_where sat s wh = coll_delete_many sat s (spec_filter wh)"
    by (simp add: delete_where_def m)
  have nil: "spec_filter [] = []" by (simp add: spec_filter_def)
  have upd: "dict_update q (spec_filter wh) = q @ spec_filter wh"
    if "\<And>k. ''metadata.'' @ k \<notin> fst ` set q" for q
    using assms that by (rule dict_update_spec)
  have gq: "get_query ids (Some wh) = get_query ids None @ spec_filter wh"
  proof (cases wh)
    case Nil
    then show ?thesis by (simp add: get_query_def nil)
  next
    case (Cons kv kvs)
    have "get_query ids (Some wh) = dict_update (get_query ids None) (metadata_filter wh)"
      by (simp add: get_query_def Cons)
    also have "\<dots> = get_query ids None @ spec_filter wh"
      unfolding m by (rule upd) (auto simp: get_query_def split: option.splits list.splits)
    finally show ?thesis .
  qed
  have qf: "query_filter v wh = query_filter v [] @ spec_filter wh"
  proof (cases "wh = []")
    case True
    then show ?thesis by (simp add: query_filter_def nil)
  next
    case False
    have "query_filter v wh = dict_update (query_filter v []) (metadata_filter wh)"
      using False by (simp add: query_filter_def)
    also have "\<dots> = query_filter v [] @ spec_filter wh"
      unfolding m by (rule upd) (simp add: query_filter_def)
    finally show ?thesis .
  qed
  from g m d gq qf show ?thesis by simp
qed

theorem filter_translation_witness:
  "distinct (map fst example_where)
   \<and> generate_query example_where = [(''metadata.source'', PStr ''web''), (''metadata.year'', PInt 2024)]
   \<and> metadata_filter example_where = [(''metadata.source'', PStr ''web''), (''metadata.year'', PInt 2024)]
   \<and> get_query (Some [''a'']) (Some example_where) =
       [(''identifier'', PDict [(''$in'', PList [PStr ''a''])]),
        (''metadata.source'', PStr ''web''), (''metadata.year'', PInt 2024)]
   \<and> query_filter [1, 2] example_where =
       [(''embedding'', PDict [(''$near'', PList [PFloat 1, PFloat 2])]),
        (''metadata.source'', PStr ''web''), (''metadata.year'', PInt 2024)]"
proof -
  have h: "distinct (map fst example_where)" by (simp add: example_where_def)
  have e: "spec_filter example_where = [(''metadata.source'', PStr ''web''), (''metadata.year'', PInt 2024)]"
    by (simp add: spec_filter_def example_where_def)
  have g: "get_query (Some [''a'']) None = [(''identifier'', PDict [(''$in'', PList [PStr ''a''])])]"
    by (simp add: get_query_def)
  have q: "query_filter [1, 2] [] = [(''embedding'', PDict [(''$near'', PList [PFloat 1, PFloat 2])])]"
    by (simp add: query_filter_def tolist_def)
  from filter_translation[OF h, of "\<lambda>_ _ _. True" fresh_state "Some [''a'']" "[1, 2]"] h
  show ?thesis by (simp add: e g q)
qed

section \<open>Initialisation without an embedder\<close>

text \<open>
  Claim C6.  With no embedder set, \<open>_initialize\<close> raises \<open>ValueError\<close> and leaves the whole
  state as it was: the trace of client calls is unchanged, so neither
  \<open>list_collection_names\<close> nor \<open>create_collection\<close> has been called.
\<close>

theorem initialize_without_embedder:
  "embedder s = None \<Longrightarrow> initialize s = (Inl ValueError, s) \<and> calls (snd (initialize s)) = calls s"
  by (simp add: initialize_def)

theorem initialize_without_embedder_witness:
  "embedder fresh_state = None \<and> initialize fresh_state = (Inl ValueError, fresh_state)
   \<and> calls (snd (initialize fresh_state)) = calls fresh_state"
proof -
  have h: "embedder fresh_state = None" by (simp add: fresh_state_def)
  from initialize_without_embedder[OF h] h show ?thesis by simp
qed

section \<open>Construction\<close>

text \<open>
  Claim C7.  What the constructor does, against what is claimed for it.  A \<open>config\<close>
  argument that is not an instance of the configuration class makes the body of \<open>__init__\<close>
  raise \<open>TypeError\<close> with nothing done, as claimed.  Not as claimed: the adapter module
  imports the configuration class under a name the configuration module does not define,
  so loading it raises \<open>ImportError\<close> and no construction gets as far as \<open>__init__\<close>; and
  with that name bound, construction without a \<open>config\<close> argument builds the default
  configuration and then raises \<open>TypeError\<close>, the client already created, because the
  default database name is \<open>None\<close>.
\<close>

theorem construction_fails:
  "load_adapter_module = Inl ImportError
   \<and> MongoDB_new base super_init cs h w cfg = (Inl ImportError, w)
   \<and> MongoDB_init base super_init cs h w (OtherObject x) = (Inl TypeError, w)
   \<and> (database_name (default_config base) = None \<longrightarrow>
        MongoDB_init base super_init cs h w NoConfig =
          (Inl TypeError, w\<lparr>clients := clients w @ [mongodb_uri w]\<rparr>))"
proof -
  have l: "load_adapter_module = Inl ImportError"
    by (simp add: load_adapter_module_def import_from_def config_module_names_def)
  have n: "MongoDB_new base super_init cs h w cfg = (Inl ImportError, w)"
    by (simp add: MongoDB_new_def l)
  have o: "MongoDB_init base super_init cs h w (OtherObject x) = (Inl TypeError, w)"
    by (simp add: MongoDB_init_def)
  have d: "MongoDB_init base super_init cs h w NoConfig =
          (Inl TypeError, w\<lparr>clients := clients w @ [mongodb_uri w]\<rparr>)"
    if "database_name (default_config base) = None"
    using that by (simp add: MongoDB_init_def Let_def)
  from l n o d show ?thesis by blast
qed

theorem construction_fails_witness:
  "database_name (default_config example_base) = None
   \<and> MongoDB_new example_base Inr Map.empty (\<lambda>a. PNone) example_world NoConfig =
       (Inl ImportError, example_world)
   \<and> MongoDB_init example_base Inr Map.empty (\<lambda>a. PNone) example_world NoConfig =
       (Inl TypeError, \<lparr> mongodb_uri = None, clients = [None] \<rparr>)"
proof -
  have h: "database_name (default_config example_base) = None"
    by (simp add: default_config_def MongoDbConfig_init_def example_base_def)
  note t = construction_fails[where base = example_base and super_init = Inr and cs = Map.empty
      and h = "\<lambda>a. PNone" and w = example_world and cfg = NoConfig and x = PNone]
  from t h have "MongoDB_init example_base Inr Map.empty (\<lambda>a. PNone) example_world NoConfig =
       (Inl TypeError, \<lparr> mongodb_uri = None, clients = [None] \<rparr>)"
    by (simp add: example_world_def)
  moreover from t have "MongoDB_new example_base Inr Map.empty (\<lambda>a. PNone) example_world NoConfig =
       (Inl ImportError, example_world)"
    by blast
  ultimately show ?thesis using h by simp
qed

section \<open>The example store\<close>

lemma matches_Nil: "matches sat [] d" by (simp add: matches_def)

lemma coll_example: "coll example_state = Inr ''notes''"
  by (simp add: coll_def example_state_def)

lemma docs_example: "docs_of example_state ''notes'' = [example_doc ''a'' ''alpha'' ''web'',
                                      example_doc ''b'' ''beta'' ''pdf'',
                                      example_doc ''c'' ''gamma'' ''web'']"
  by (simp add: docs_of_def example_state_def)

lemma sat_source:
  "example_sat ''metadata.source'' (PStr x) (example_doc i t src) = (src = x)"
  by (auto simp add: example_sat_def example_doc_def)

section \<open>delete\<close>

text \<open>
  Claim C4.  \<open>delete(where)\<close> on an initialised adapter succeeds; the collection then holds
  exactly the records that do not match the translated filter, every other collection is
  untouched, and \<open>count()\<close> has gone down by the number of records that matched.
\<close>

theorem delete_removes_matching:
  assumes "distinct (map fst wh)" and "coll s = Inr n"
  shows "fst (delete_where sat s wh) = Inr ()
       \<and> docs_of (snd (delete_where sat s wh)) n =
           filter (\<lambda>d. \<not> matches sat (spec_filter wh) d) (docs_of s n)
       \<and> (\<forall>m. m \<noteq> n \<longrightarrow> collections (snd (delete_where sat s wh)) m = collections s m)
       \<and> fst (count sat s) = Inr (int (length (docs_of s n)))
       \<and> fst (count sat (snd (delete_where sat s wh))) =
           Inr (int (length (docs_of s n)) -
                int (length (filter (matches sat (spec_filter wh)) (docs_of s n))))"
proof -
  let ?q = "spec_filter wh"
  let ?s' = "snd (delete_where sat s wh)"
  have d: "delete_where sat s wh = coll_delete_many sat s ?q"
    by (simp add: delete_where_def metadata_filter_spec[OF assms(1)])
  have c': "coll ?s' = Inr n"
    using assms(2) by (auto simp: d coll_delete_many_def coll_def split: option.splits)
  have docs: "docs_of ?s' n = filter (\<lambda>d. \<not> matches sat ?q d) (docs_of s n)"
    using assms(2) by (simp add: d coll_delete_many_def docs_of_def split: option.splits)
  have len: "int (length (filter (\<lambda>d. \<not> matches sat ?q d) (docs_of s n))) =
        int (length (docs_of s n)) - int (length (filter (matches sat ?q) (docs_of s n)))"
    using sum_length_filter_compl[of "matches sat ?q" "docs_of s n"] by simp
  have "fst (delete_where sat s wh) = Inr ()"
    using assms(2) by (simp add: d coll_delete_many_def)
  moreover have "\<forall>m. m \<noteq> n \<longrightarrow> collections ?s' m = collections s m"
    using assms(2) by (simp add: d coll_delete_many_def)
  moreover have "fst (count sat s) = Inr (int (length (docs_of s n)))"
    using assms(2) by (simp add: count_def coll_count_documents_def matches_Nil)
  moreover have "fst (count sat ?s') =
      Inr (int (length (docs_of s n)) - int (length (filter (matches sat ?q) (docs_of s n))))"
    using c' by (simp add: count_def coll_count_documents_def matches_Nil docs len)
  ultimately show ?thesis using docs by simp
qed

theorem delete_removes_matching_witness:
  "distinct (map fst [(''source'', PStr ''web'')]) \<and> coll example_state = Inr ''notes''
   \<and> fst (delete_where example_sat example_state [(''source'', PStr ''web'')]) = Inr ()
   \<and> docs_of (snd (delete_where example_sat example_state [(''source'', PStr ''web'')])) ''notes'' =
       [example_doc ''b'' ''beta'' ''pdf'']
   \<and> fst (count example_sat example_state) = Inr 3
   \<and> fst (count example_sat (snd (delete_where example_sat example_state [(''source'', PStr ''web'')]))) = Inr 1"
proof -
  have h1: "distinct (map fst [(''source'', PStr ''web'')])" by simp
  have m: "matches example_sat (spec_filter [(''source'', PStr ''web'')]) (example_doc i t src) = (src = ''web'')" for i t src
    by (simp add: matches_def spec_filter_def sat_source)
  from delete_removes_matching[OF h1 coll_example, of example_sat] h1 coll_example
  show ?thesis by (simp add: docs_example m)
qed

text \<open>
  Claim C8.  \<open>delete({})\<close> sends the empty filter to the store: the call is recorded with
  the filter \<open>{}\<close>, every record of the collection is removed, and \<open>count()\<close> is 0
  afterwards.  Nothing in \<open>delete\<close> looks at whether \<open>where\<close> is empty.
\<close>

theorem delete_empty_where:
  assumes "coll s = Inr n"
  shows "delete_where sat s [] =
           (Inr (), s\<lparr>collections := (collections s)(n := map_option (\<lambda>ds. []) (collections s n)),
                      calls := calls s @ [DeleteMany n []]\<rparr>)
       \<and> docs_of (snd (delete_where sat s [])) n = []
       \<and> fst (count sat (snd (delete_where sat s []))) = Inr 0"
proof -
  have f: "filter (\<lambda>d. \<not> matches sat [] d) = (\<lambda>ds. [])"
    by (rule ext) (simp add: matches_Nil)
  have d: "delete_where sat s [] =
           (Inr (), s\<lparr>collections := (collections s)(n := map_option (\<lambda>ds. []) (collections s n)),
                      calls := calls s @ [DeleteMany n []]\<rparr>)"
    using assms by (simp add: delete_where_def metadata_filter_def coll_delete_many_def f)
  have docs: "docs_of (snd (delete_where sat s [])) n = []"
    by (simp add: d docs_of_def split: option.splits)
  have "coll (snd (delete_where sat s [])) = Inr n"
    using assms by (simp add: d coll_def)
  then have "fst (count sat (snd (delete_where sat s []))) = Inr 0"
    by (simp add: count_def coll_count_documents_def docs)
  with d docs show ?thesis by simp
qed

theorem delete_empty_where_witness:
  "coll example_state = Inr ''notes''
   \<and> length (docs_of example_state ''notes'') = 3
   \<and> calls (snd (delete_where example_sat example_state [])) = [DeleteMany ''notes'' []]
   \<and> docs_of (snd (delete_where example_sat example_state [])) ''notes'' = []
   \<and> fst (count example_sat (snd (delete_where example_sat example_state []))) = Inr 0"
proof -
  have c: "calls example_state = []" by (simp add: example_state_def)
  note t = delete_empty_where[OF coll_example, of example_sat]
  from t have "calls (snd (delete_where example_sat example_state [])) = [DeleteMany ''notes'' []]"
    by (simp add: c)
  moreover from t have "docs_of (snd (delete_where example_sat example_state [])) ''notes'' = []"
    by blast
  moreover from t have "fst (count example_sat (snd (delete_where example_sat example_state []))) = Inr 0"
    by blast
  ultimately show ?thesis using coll_example by (simp add: docs_example)
qed

section \<open>get\<close>

lemma get_loop_fields:
  assumes "\<forall>d \<in> set ds. map_of d ''identifier'' \<noteq> None \<and> map_of d ''metadata'' \<noteq> None"
  shows "get_loop ds a b =
           Inr (a @ map (\<lambda>d. get_default d ''identifier'' PNone) ds,
                b @ map (\<lambda>d. get_default d ''metadata'' PNone) ds)"
  using assms
  by (induction ds arbitrary: a b) (auto simp: getitem_def get_default_def)

lemma set_limited: "set (limited lmt xs) \<subseteq> set xs"
  by (cases lmt) (auto dest: in_set_takeD)



section \<open>query\<close>

lemma wf_doc_text: "wf_doc d \<Longrightarrow> \<exists>t. map_of d ''text'' = Some (PStr t)"
  unfolding wf_doc_def by (auto split: option.splits pyval.splits)

lemma wf_doc_metadata: "wf_doc d \<Longrightarrow> \<exists>md. map_of d ''metadata'' = Some (PDict md)"
  unfolding wf_doc_def by (auto split: option.splits pyval.splits)

lemma wf_doc_identifier: "wf_doc d \<Longrightarrow> \<exists>i. map_of d ''identifier'' = Some (PStr i)"
  unfolding wf_doc_def by (auto split: option.splits pyval.splits)

lemma wf_example_doc: "wf_doc (example_doc i t src)"
  by (simp add: wf_doc_def example_doc_def)

lemma query_loop_step:
  assumes "map_of d ''text'' = Some (PStr t)" and "map_of d ''metadata'' = Some (PDict md)"
  shows "query_loop c (d # ds) acc =
         query_loop c ds (acc @ [if c then Cited (PStr t)
                                         (PDict (AList.update ''score'' (get_default d ''score'' (PInt 0)) md))
                                 else Text (PStr t)])"
  by (simp add: getitem_def assms)

lemma query_loop_hits:
  assumes "\<forall>d \<in> set ds. wf_doc d"
  shows "\<exists>hs. query_loop c ds acc = Inr (acc @ hs) \<and> list_all2 (hit_rel c) ds hs"
  using assms
proof (induction ds arbitrary: acc)
  case Nil
  then show ?case by simp
next
  case (Cons d ds)
  from Cons.prems have "wf_doc d" by simp
  then obtain t md where t: "map_of d ''text'' = Some (PStr t)"
    and md: "map_of d ''metadata'' = Some (PDict md)"
    using wf_doc_text wf_doc_metadata by blast
  define h where "h = (if c then Cited (PStr t)
                                         (PDict (AList.update ''score'' (get_default d ''score'' (PInt 0)) md))
                                 else Text (PStr t))"
  have step: "query_loop c (d # ds) acc = query_loop c ds (acc @ [h])"
    unfolding h_def by (rule query_loop_step[OF t md])
  have hr: "hit_rel c d h"
    unfolding hit_rel_def h_def using t md by blast
  from Cons.prems have "\<forall>d \<in> set ds. wf_doc d" by simp
  from Cons.IH[OF this, of "acc @ [h]"] obtain hs where
    hs: "query_loop c ds (acc @ [h]) = Inr ((acc @ [h]) @ hs)"
    and rel: "list_all2 (hit_rel c) ds hs"
    by blast
  have "query_loop c (d # ds) acc = Inr (acc @ (h # hs))"
    unfolding step hs by simp
  moreover have "list_all2 (hit_rel c) (d # ds) (h # hs)"
    using rel hr by simp
  ultimately show ?case by blast
qed

lemma hit_rel_plain: "hit_rel False d h \<Longrightarrow> \<exists>t. h = Text (PStr t)"
  unfolding hit_rel_def by auto

lemma hit_rel_cited:
  "hit_rel True d h \<Longrightarrow> \<exists>t md score. h = Cited (PStr t) (PDict md) \<and> map_of md ''score'' = Some score"
  unfolding hit_rel_def by (auto simp: update_conv')

text \<open>
  Claim C3.  On an initialised adapter whose collection holds records of the data model,
  \<open>query\<close> returns one entry per record the store hands back, in order.  Without citations
  every entry is the record's text, a string.  With citations every entry is the pair of the
  text and the metadata mapping, in which \<open>score\<close> is present: the record's own score, or 0
  when the record carries none.
\<close>

theorem query_result_shape:
  assumes "coll s = Inr n" and "embedder s = Some f" and "f [input_query] = v # vs"
    and "\<forall>d \<in> set (docs_of s n). wf_doc d"
  shows "\<exists>hits. fst (query sat s input_query n_results wh citations) = Inr hits
     \<and> list_all2 (\<lambda>d h. \<exists>t md. map_of d ''text'' = Some (PStr t)
                        \<and> map_of d ''metadata'' = Some (PDict md)
                        \<and> h = (if citations
                               then Cited (PStr t)
                                      (PDict (AList.update ''score'' (get_default d ''score'' (PInt 0)) md))
                               else Text (PStr t)))
          (limited (Some n_results) (filter (matches sat (query_filter v wh)) (docs_of s n))) hits
     \<and> (\<not> citations \<longrightarrow> (\<forall>h \<in> set hits. \<exists>t. h = Text (PStr t)))
     \<and> (citations \<longrightarrow> (\<forall>h \<in> set hits. \<exists>t md score. h = Cited (PStr t) (PDict md)
                                         \<and> map_of md ''score'' = Some score))"
proof -
  define cursor where
    "cursor = limited (Some n_results) (filter (matches sat (query_filter v wh)) (docs_of s n))"
  have "set cursor \<subseteq> set (docs_of s n)"
    unfolding cursor_def
    using set_limited[of "Some n_results" "filter (matches sat (query_filter v wh)) (docs_of s n)"] by auto
  with assms(4) have "\<forall>d \<in> set cursor. wf_doc d" by blast
  from query_loop_hits[OF this, of citations "[]"] obtain hits where
    loop: "query_loop citations cursor [] = Inr hits" and rel: "list_all2 (hit_rel citations) cursor hits"
    by auto
  have find: "coll_find sat s (query_filter v wh) (Some n_results) =
        (Inr cursor, s\<lparr>calls := calls s @ [Find n (query_filter v wh) (Some n_results)]\<rparr>)"
    unfolding cursor_def coll_find_def using assms(1) by simp
  have q: "fst (query sat s input_query n_results wh citations) = Inr hits"
    unfolding query_def using assms(2,3) by (simp add: find loop)
  have each: "\<exists>d. hit_rel citations d h" if "h \<in> set hits" for h
  proof -
    from that obtain i where i: "i < length hits" and h: "hits ! i = h"
      by (auto simp: in_set_conv_nth)
    from list_all2_nthD2[OF rel i] have "hit_rel citations (cursor ! i) (hits ! i)" .
    then show ?thesis unfolding h by (rule exI)
  qed
  have plain: "\<forall>h \<in> set hits. \<exists>t. h = Text (PStr t)" if "\<not> citations"
  proof
    fix h assume "h \<in> set hits"
    from each[OF this] obtain d where "hit_rel citations d h" ..
    with that have "hit_rel False d h" by simp
    then show "\<exists>t. h = Text (PStr t)" by (rule hit_rel_plain)
  qed
  have cited: "\<forall>h \<in> set hits. \<exists>t md score. h = Cited (PStr t) (PDict md) \<and> map_of md ''score'' = Some score"
    if citations
  proof
    fix h assume "h \<in> set hits"
    from each[OF this] obtain d where "hit_rel citations d h" ..
    with that have "hit_rel True d h" by simp
    then show "\<exists>t md score. h = Cited (PStr t) (PDict md) \<and> map_of md ''score'' = Some score"
      by (rule hit_rel_cited)
  qed
  note rel' = rel[unfolded hit_rel_def[abs_def] cursor_def]
  show ?thesis
    by (rule exI[of _ hits], intro conjI impI) (fact q, fact rel', rule plain, assumption, rule cited, assumption)
qed

lemma sat_near: "example_sat ''embedding'' (PDict [(''$near'', x)]) (example_doc i t src)"
  by (simp add: example_sat_def example_doc_def)

lemma example_query_cursor:
  "coll_find example_sat example_state (query_filter [5, 1] []) (Some 2) =
     (Inr [example_doc ''a'' ''alpha'' ''web'', example_doc ''b'' ''beta'' ''pdf''],
      example_state\<lparr>calls := calls example_state @ [Find ''notes'' (query_filter [5, 1] []) (Some 2)]\<rparr>)"
proof -
  have m: "matches example_sat (query_filter [5, 1] []) (example_doc i t src)" for i t src
    by (simp add: matches_def query_filter_def sat_near)
  show ?thesis
    by (simp add: coll_find_def coll_example docs_example m)
qed

theorem query_result_shape_witness:
  "coll example_state = Inr ''notes'' \<and> embedder example_state = Some example_embedder
   \<and> example_embedder [''alpha''] = [[5, 1]]
   \<and> list_all wf_doc (docs_of example_state ''notes'')
   \<and> fst (query example_sat example_state ''alpha'' 2 [] True) =
       Inr [Cited (PStr ''alpha'') (PDict [(''source'', PStr ''web''), (''text'', PStr ''alpha''), (''score'', PInt 0)]),
            Cited (PStr ''beta'') (PDict [(''source'', PStr ''pdf''), (''text'', PStr ''beta''), (''score'', PInt 0)])]
   \<and> fst (query example_sat example_state ''alpha'' 2 [] False) = Inr [Text (PStr ''alpha''), Text (PStr ''beta'')]"
proof -
  have e: "embedder example_state = Some example_embedder" by (simp add: example_state_def)
  have v: "example_embedder [''alpha''] = [5, 1] # []" by (simp add: example_embedder_def)
  have wf: "\<forall>d \<in> set (docs_of example_state ''notes''). wf_doc d"
    by (simp add: docs_example wf_example_doc)
  have l: "query_loop c [example_doc ''a'' ''alpha'' ''web'', example_doc ''b'' ''beta'' ''pdf''] [] =
       Inr (if c then
          [Cited (PStr ''alpha'') (PDict [(''source'', PStr ''web''), (''text'', PStr ''alpha''), (''score'', PInt 0)]),
            Cited (PStr ''beta'') (PDict [(''source'', PStr ''pdf''), (''text'', PStr ''beta''), (''score'', PInt 0)])]
          else [Text (PStr ''alpha''), Text (PStr ''beta'')])" for c
    by (simp add: example_doc_def getitem_def get_default_def)
  have a: "fst (query example_sat example_state ''alpha'' 2 [] c) =
       Inr (if c then
          [Cited (PStr ''alpha'') (PDict [(''source'', PStr ''web''), (''text'', PStr ''alpha''), (''score'', PInt 0)]),
            Cited (PStr ''beta'') (PDict [(''source'', PStr ''pdf''), (''text'', PStr ''beta''), (''score'', PInt 0)])]
          else [Text (PStr ''alpha''), Text (PStr ''beta'')])" for c
    unfolding query_def by (simp add: e v example_query_cursor l del: query_loop.simps)
  from query_result_shape[OF coll_example e v wf, of example_sat 2 "[]" True]
  obtain hits where "fst (query example_sat example_state ''alpha'' 2 [] True) = Inr hits"
    and "\<forall>h \<in> set hits. \<exists>t md score. h = Cited (PStr t) (PDict md) \<and> map_of md ''score'' = Some score"
    by blast
  then have "hits = [Cited (PStr ''alpha'') (PDict [(''source'', PStr ''web''), (''text'', PStr ''alpha''), (''score'', PInt 0)]),
            Cited (PStr ''beta'') (PDict [(''source'', PStr ''pdf''), (''text'', PStr ''beta''), (''score'', PInt 0)])]"
    by (simp add: a)
  with a[of True] a[of False] coll_example e v wf show ?thesis by (simp add: list_all_iff)
qed

section \<open>add\<close>

lemma setitem_text:
  "setitem obj ''text'' (PStr d) = Inr x \<Longrightarrow> x = set_text d obj \<and> (\<exists>md. obj = PDict md)"
  by (cases obj) auto

lemma set_text_twice: "set_text d (set_text d' obj) = set_text d obj"
  by (cases obj) auto

lemma add_loop_Cons:
  assumes "add_loop s ((i, d, m, e) # rest) = (Inr (), s')" and "coll s = Inr n"
  obtains md where "heap s m = PDict md"
    and "add_loop (s\<lparr>heap := (heap s)(m := set_text d (heap s m)),
                     collections := (collections s)(n \<mapsto> docs_of s n @ [stored_record (i, d, m, e) (heap s)]),
                     calls := calls s @ [InsertOne n (stored_record (i, d, m, e) (heap s))]\<rparr>) rest = (Inr (), s')"
proof -
  from assms(1) obtain x where x: "setitem (heap s m) ''text'' (PStr d) = Inr x"
    by (auto split: sum.splits)
  from setitem_text[OF x] obtain md where xs: "x = set_text d (heap s m)" and md: "heap s m = PDict md"
    by blast
  have c1: "coll (s\<lparr>heap := (heap s)(m := x)\<rparr>) = Inr n"
    using assms(2) by (simp add: coll_def)
  have "add_loop (s\<lparr>heap := (heap s)(m := set_text d (heap s m)),
                     collections := (collections s)(n \<mapsto> docs_of s n @ [stored_record (i, d, m, e) (heap s)]),
                     calls := calls s @ [InsertOne n (stored_record (i, d, m, e) (heap s))]\<rparr>) rest = (Inr (), s')"
    using assms(1) c1
    by (simp add: x coll_insert_one_def Let_def stored_record_def xs[symmetric] docs_of_def)
  with md show ?thesis by (rule that)
qed


lemma set_text_upd: "set_text d (((h)(m := set_text d' (h m))) a) = set_text d (h a)"
  by (simp add: set_text_twice)

lemma stored_record_upd:
  "stored_record tup ((h)(m := set_text d' (h m))) = stored_record tup h"
  by (cases tup) (simp add: stored_record_def set_text_twice)

lemma add_loop_docs:
  assumes "add_loop s ts = (Inr (), s')" and "coll s = Inr n"
  shows "coll s' = Inr n \<and> embedder s' = embedder s
       \<and> docs_of s' n = docs_of s n @ map (\<lambda>tup. stored_record tup (heap s)) ts"
  using assms
proof (induction ts arbitrary: s)
  case Nil
  then show ?case by simp
next
  case (Cons tup ts)
  obtain i d m e where tup: "tup = (i, d, m, e)" by (cases tup)
  let ?s2 = "s\<lparr>heap := (heap s)(m := set_text d (heap s m)),
               collections := (collections s)(n \<mapsto> docs_of s n @ [stored_record (i, d, m, e) (heap s)]),
               calls := calls s @ [InsertOne n (stored_record (i, d, m, e) (heap s))]\<rparr>"
  from Cons.prems obtain md where "heap s m = PDict md" and rest: "add_loop ?s2 ts = (Inr (), s')"
    unfolding tup by (rule add_loop_Cons)
  have c2: "coll ?s2 = Inr n" using Cons.prems(2) by (simp add: coll_def)
  from Cons.IH[OF rest c2] have ih: "coll s' = Inr n" "embedder s' = embedder ?s2"
    "docs_of s' n = docs_of ?s2 n @ map (\<lambda>tup. stored_record tup (heap ?s2)) ts"
    by blast+
  have d2: "docs_of ?s2 n = docs_of s n @ [stored_record (i, d, m, e) (heap s)]"
    by (simp add: docs_of_def)
  from ih show ?case by (simp add: d2 stored_record_upd tup)
qed

lemma add_loop_others:
  assumes "add_loop s ts = (Inr (), s')" and "coll s = Inr n" and "n' \<noteq> n"
  shows "collections s' n' = collections s n'"
  using assms
proof (induction ts arbitrary: s)
  case Nil
  then show ?case by simp
next
  case (Cons tup ts)
  obtain i d m e where tup: "tup = (i, d, m, e)" by (cases tup)
  let ?s2 = "s\<lparr>heap := (heap s)(m := set_text d (heap s m)),
               collections := (collections s)(n \<mapsto> docs_of s n @ [stored_record (i, d, m, e) (heap s)]),
               calls := calls s @ [InsertOne n (stored_record (i, d, m, e) (heap s))]\<rparr>"
  from Cons.prems(1,2) obtain md where "heap s m = PDict md" and rest: "add_loop ?s2 ts = (Inr (), s')"
    unfolding tup by (rule add_loop_Cons)
  have c2: "coll ?s2 = Inr n" using Cons.prems(2) by (simp add: coll_def)
  from Cons.IH[OF rest c2 Cons.prems(3)] Cons.prems(3) show ?case by simp
qed

lemma add_loop_heap_other:
  assumes "add_loop s ts = (Inr (), s')" and "coll s = Inr n"
    and "\<forall>tup \<in> set ts. fst (snd (snd tup)) \<noteq> a"
  shows "heap s' a = heap s a"
  using assms
proof (induction ts arbitrary: s)
  case Nil
  then show ?case by simp
next
  case (Cons tup ts)
  obtain i d m e where tup: "tup = (i, d, m, e)" by (cases tup)
  let ?s2 = "s\<lparr>heap := (heap s)(m := set_text d (heap s m)),
               collections := (collections s)(n \<mapsto> docs_of s n @ [stored_record (i, d, m, e) (heap s)]),
               calls := calls s @ [InsertOne n (stored_record (i, d, m, e) (heap s))]\<rparr>"
  from Cons.prems(1,2) obtain md where "heap s m = PDict md" and rest: "add_loop ?s2 ts = (Inr (), s')"
    unfolding tup by (rule add_loop_Cons)
  have c2: "coll ?s2 = Inr n" using Cons.prems(2) by (simp add: coll_def)
  from Cons.prems(3) have ne: "m \<noteq> a" and later: "\<forall>tup \<in> set ts. fst (snd (snd tup)) \<noteq> a"
    by (simp_all add: tup)
  from Cons.IH[OF rest c2 later] ne show ?case by simp
qed

lemma add_loop_heap_nth:
  assumes "add_loop s ts = (Inr (), s')" and "coll s = Inr n"
    and "k < length ts" and "ts ! k = (i, d, m, e)"
    and "\<forall>j. k < j \<and> j < length ts \<longrightarrow> fst (snd (snd (ts ! j))) \<noteq> m"
  shows "(\<exists>md. heap s m = PDict md) \<and> heap s' m = set_text d (heap s m)"
  using assms
proof (induction ts arbitrary: s k)
  case Nil
  then show ?case by simp
next
  case (Cons tup ts)
  obtain i0 d0 m0 e0 where tup: "tup = (i0, d0, m0, e0)" by (cases tup)
  let ?s2 = "s\<lparr>heap := (heap s)(m0 := set_text d0 (heap s m0)),
               collections := (collections s)(n \<mapsto> docs_of s n @ [stored_record (i0, d0, m0, e0) (heap s)]),
               calls := calls s @ [InsertOne n (stored_record (i0, d0, m0, e0) (heap s))]\<rparr>"
  from Cons.prems(1,2) obtain md0 where md0: "heap s m0 = PDict md0"
    and rest: "add_loop ?s2 ts = (Inr (), s')"
    unfolding tup by (rule add_loop_Cons)
  have c2: "coll ?s2 = Inr n" using Cons.prems(2) by (simp add: coll_def)
  show ?case
  proof (cases k)
    case 0
    with Cons.prems(4) have eq: "i0 = i" "d0 = d" "m0 = m" "e0 = e" by (simp_all add: tup)
    have "\<forall>tup \<in> set ts. fst (snd (snd tup)) \<noteq> m"
    proof
      fix x assume "x \<in> set ts"
      then obtain j where j: "j < length ts" and x: "ts ! j = x" by (auto simp: in_set_conv_nth)
      from Cons.prems(5)[rule_format, of "Suc j"] 0 j x show "fst (snd (snd x)) \<noteq> m" by simp
    qed
    from add_loop_heap_other[OF rest c2 this] md0 show ?thesis by (simp add: eq)
  next
    case (Suc k')
    from Cons.prems(3,4) Suc have k': "k' < length ts" and nth: "ts ! k' = (i, d, m, e)" by simp_all
    have later: "\<forall>j. k' < j \<and> j < length ts \<longrightarrow> fst (snd (snd (ts ! j))) \<noteq> m"
    proof (intro allI impI)
      fix j assume "k' < j \<and> j < length ts"
      with Cons.prems(5)[rule_format, of "Suc j"] Suc show "fst (snd (snd (ts ! j))) \<noteq> m" by simp
    qed
    from Cons.IH[OF rest c2 k' nth later]
    have ih: "\<exists>md. heap ?s2 m = PDict md" "heap s' m = set_text d (heap ?s2 m)" by blast+
    show ?thesis
    proof (cases "m = m0")
      case True
      with ih md0 show ?thesis by (simp add: set_text_twice)
    next
      case False
      with ih show ?thesis by simp
    qed
  qed
qed

lemma add_loop_succeeds:
  assumes "coll s = Inr n" and "\<forall>tup \<in> set ts. \<exists>md. heap s (fst (snd (snd tup))) = PDict md"
  shows "fst (add_loop s ts) = Inr ()"
  using assms
proof (induction ts arbitrary: s)
  case Nil
  then show ?case by simp
next
  case (Cons tup ts)
  obtain i d m e where tup: "tup = (i, d, m, e)" by (cases tup)
  from Cons.prems(2) obtain md where md: "heap s m = PDict md" by (auto simp: tup)
  let ?s2 = "s\<lparr>heap := (heap s)(m := PDict (AList.update ''text'' (PStr d) md)),
               collections := (collections s)(n \<mapsto> docs_of s n @
                  [[(''identifier'', PStr i), (''text'', PStr d),
                    (''metadata'', PDict (AList.update ''text'' (PStr d) md)),
                    (''embedding'', tolist e)]]),
               calls := calls s @ [InsertOne n [(''identifier'', PStr i), (''text'', PStr d),
                    (''metadata'', PDict (AList.update ''text'' (PStr d) md)),
                    (''embedding'', tolist e)]]\<rparr>"
  have c1: "coll (s\<lparr>heap := (heap s)(m := PDict (AList.update ''text'' (PStr d) md))\<rparr>) = Inr n"
    using Cons.prems(1) by (simp add: coll_def)
  have step: "add_loop s (tup # ts) = add_loop ?s2 ts"
    by (simp add: tup md coll_insert_one_def c1 docs_of_def Let_def)
  have c2: "coll ?s2 = Inr n" using Cons.prems(1) by (simp add: coll_def)
  have "\<forall>tup \<in> set ts. \<exists>md. heap ?s2 (fst (snd (snd tup))) = PDict md"
    using Cons.prems(2) by simp
  from Cons.IH[OF c2 this] show ?case by (simp only: step)
qed
lemma add_loop_dicts:
  assumes "add_loop s ts = (Inr (), s')" and "coll s = Inr n"
  shows "\<forall>tup \<in> set ts. \<exists>md. heap s (fst (snd (snd tup))) = PDict md"
  using assms
proof (induction ts arbitrary: s)
  case Nil
  then show ?case by simp
next
  case (Cons tup ts)
  obtain i d m e where tup: "tup = (i, d, m, e)" by (cases tup)
  let ?s2 = "s\<lparr>heap := (heap s)(m := set_text d (heap s m)),
               collections := (collections s)(n \<mapsto> docs_of s n @ [stored_record (i, d, m, e) (heap s)]),
               calls := calls s @ [InsertOne n (stored_record (i, d, m, e) (heap s))]\<rparr>"
  from Cons.prems obtain md where md: "heap s m = PDict md" and rest: "add_loop ?s2 ts = (Inr (), s')"
    unfolding tup by (rule add_loop_Cons)
  have c2: "coll ?s2 = Inr n" using Cons.prems(2) by (simp add: coll_def)
  from Cons.IH[OF rest c2] have ih: "\<forall>tup \<in> set ts. \<exists>md. heap ?s2 (fst (snd (snd tup))) = PDict md" .
  have "\<exists>md'. heap s (fst (snd (snd x))) = PDict md'" if "x \<in> set ts" for x
  proof (cases "fst (snd (snd x)) = m")
    case True
    with md show ?thesis by simp
  next
    case False
    with ih that show ?thesis by auto
  qed
  with md show ?case by (auto simp: tup)
qed

lemma zip4_nth:
  assumes "k < length ids" and "k < length documents" and "k < length metadatas" and "k < length es"
  shows "k < length (zip ids (zip documents (zip metadatas es)))"
    and "zip ids (zip documents (zip metadatas es)) ! k = (ids ! k, documents ! k, metadatas ! k, es ! k)"
  using assms by simp_all

lemma zip4_addr:
  assumes "j < length (zip ids (zip documents (zip metadatas es)))"
  shows "fst (snd (snd (zip ids (zip documents (zip metadatas es)) ! j))) = metadatas ! j"
    and "j < length metadatas"
  using assms by simp_all

lemma caller_state_simps:
  "coll caller_state = Inr ''notes''"
  "embedder caller_state = Some example_embedder"
  "heap caller_state 7 = PDict [(''source'', PStr ''web'')]"
  "docs_of caller_state ''notes'' = docs_of example_state ''notes''"
  by (simp_all add: caller_state_def coll_def example_state_def docs_of_def)

lemma caller_add_ok: "fst (add caller_state [''delta''] [7] [''d'']) = Inr ()"
proof -
  have "\<forall>tup \<in> set (zip [''d''] (zip [''delta''] (zip [7] (example_embedder [''delta'']))))
          . \<exists>md. heap caller_state (fst (snd (snd tup))) = PDict md"
    by (simp add: example_embedder_def caller_state_simps)
  from add_loop_succeeds[OF caller_state_simps(1) this] show ?thesis
    by (simp add: add_def caller_state_simps)
qed

text \<open>
  Claim C9.  When \<open>add\<close> returns, every tuple it was given (position \<open>k\<close> of the parallel
  lists) had a metadata mapping; the record stored for it carries the value of that mapping
  with \<open>text\<close> set to the document; the caller's mapping itself now has \<open>text\<close> set to that
  document (when the same object is not passed again at a later position, which would set
  it again); and whatever the caller assigns to the mapping afterwards, the collection is
  unchanged.
\<close>

theorem add_mutates_and_copies:
  assumes "add s documents metadatas ids = (Inr (), s')"
    and "coll s = Inr n" and "embedder s = Some f"
    and "k < length ids" and "k < length documents" and "k < length metadatas"
    and "k < length (f documents)"
  shows "\<exists>md. heap s (metadatas ! k) = PDict md
     \<and> docs_of s' n ! (length (docs_of s n) + k) =
         [(''identifier'', PStr (ids ! k)), (''text'', PStr (documents ! k)),
          (''metadata'', PDict (AList.update ''text'' (PStr (documents ! k)) md)),
          (''embedding'', tolist (f documents ! k))]
     \<and> ((\<forall>j. k < j \<and> j < length metadatas \<longrightarrow> metadatas ! j \<noteq> metadatas ! k) \<longrightarrow>
          heap s' (metadatas ! k) = PDict (AList.update ''text'' (PStr (documents ! k)) md))
     \<and> (\<forall>obj. docs_of (s'\<lparr>heap := (heap s')(metadatas ! k := obj)\<rparr>) n = docs_of s' n)"
proof -
  define ts where "ts = zip ids (zip documents (zip metadatas (f documents)))"
  have loop: "add_loop s ts = (Inr (), s')"
    using assms(1,3) by (simp add: add_def ts_def)
  have k: "k < length ts" and nth: "ts ! k = (ids ! k, documents ! k, metadatas ! k, f documents ! k)"
    unfolding ts_def using assms(4-7) by (rule zip4_nth)+
  from k have "ts ! k \<in> set ts" by simp
  with add_loop_dicts[OF loop assms(2)] obtain md where md: "heap s (metadatas ! k) = PDict md"
    by (auto simp: nth)
  from add_loop_docs[OF loop assms(2)]
  have docs: "docs_of s' n = docs_of s n @ map (\<lambda>tup. stored_record tup (heap s)) ts" by blast
  have rec: "docs_of s' n ! (length (docs_of s n) + k) =
         [(''identifier'', PStr (ids ! k)), (''text'', PStr (documents ! k)),
          (''metadata'', PDict (AList.update ''text'' (PStr (documents ! k)) md)),
          (''embedding'', tolist (f documents ! k))]"
    using k by (simp add: docs nth stored_record_def md)
  have mut: "heap s' (metadatas ! k) = PDict (AList.update ''text'' (PStr (documents ! k)) md)"
    if later: "\<forall>j. k < j \<and> j < length metadatas \<longrightarrow> metadatas ! j \<noteq> metadatas ! k"
  proof -
    have "\<forall>j. k < j \<and> j < length ts \<longrightarrow> fst (snd (snd (ts ! j))) \<noteq> metadatas ! k"
    proof (intro allI impI)
      fix j assume j: "k < j \<and> j < length ts"
      then have "j < length (zip ids (zip documents (zip metadatas (f documents))))"
        by (simp add: ts_def)
      from zip4_addr[OF this] j later show "fst (snd (snd (ts ! j))) \<noteq> metadatas ! k"
        by (simp add: ts_def)
    qed
    from add_loop_heap_nth[OF loop assms(2) k nth this] show ?thesis by (simp add: md)
  qed
  have frame: "\<forall>obj. docs_of (s'\<lparr>heap := (heap s')(metadatas ! k := obj)\<rparr>) n = docs_of s' n"
    by (simp add: docs_of_def)
  from md rec mut frame show ?thesis by blast
qed

theorem add_mutates_and_copies_witness:
  "add caller_state [''delta''] [7] [''d''] = (Inr (), snd (add caller_state [''delta''] [7] [''d'']))
   \<and> coll caller_state = Inr ''notes'' \<and> embedder caller_state = Some example_embedder
   \<and> heap caller_state 7 = PDict [(''source'', PStr ''web'')]
   \<and> docs_of (snd (add caller_state [''delta''] [7] [''d''])) ''notes'' ! 3 =
       [(''identifier'', PStr ''d''), (''text'', PStr ''delta''),
        (''metadata'', PDict [(''source'', PStr ''web''), (''text'', PStr ''delta'')]),
        (''embedding'', PList [PFloat 5, PFloat 1])]
   \<and> heap (snd (add caller_state [''delta''] [7] [''d''])) 7 =
       PDict [(''source'', PStr ''web''), (''text'', PStr ''delta'')]"
proof -
  let ?s' = "snd (add caller_state [''delta''] [7] [''d''])"
  have a: "add caller_state [''delta''] [7] [''d''] = (Inr (), ?s')"
    using caller_add_ok by (simp add: prod_eq_iff)
  have l: "(0::nat) < length [''d'']" "(0::nat) < length [''delta'']" "(0::nat) < length [7::nat]"
    "(0::nat) < length (example_embedder [''delta''])"
    by (simp_all add: example_embedder_def)
  note t = add_mutates_and_copies[OF a caller_state_simps(1,2) l]
  from t obtain md where md: "heap caller_state ([7] ! 0) = PDict md"
    and rec: "docs_of ?s' ''notes'' ! (length (docs_of caller_state ''notes'') + 0) =
         [(''identifier'', PStr ([''d''] ! 0)), (''text'', PStr ([''delta''] ! 0)),
          (''metadata'', PDict (AList.update ''text'' (PStr ([''delta''] ! 0)) md)),
          (''embedding'', tolist (example_embedder [''delta''] ! 0))]"
    and mut: "(\<forall>j. 0 < j \<and> j < length [7::nat] \<longrightarrow> [7::nat] ! j \<noteq> [7] ! 0) \<longrightarrow>
          heap ?s' ([7] ! 0) = PDict (AList.update ''text'' (PStr ([''delta''] ! 0)) md)"
    by blast
  from md have m: "md = [(''source'', PStr ''web'')]" by (simp add: caller_state_simps)
  from rec have r: "docs_of ?s' ''notes'' ! 3 =
       [(''identifier'', PStr ''d''), (''text'', PStr ''delta''),
        (''metadata'', PDict [(''source'', PStr ''web''), (''text'', PStr ''delta'')]),
        (''embedding'', PList [PFloat 5, PFloat 1])]"
    by (simp add: m caller_state_simps docs_example example_embedder_def tolist_def numeral_3_eq_3)
  have "\<forall>j. 0 < j \<and> j < length [7::nat] \<longrightarrow> [7::nat] ! j \<noteq> [7] ! 0" by auto
  with mut have "heap ?s' ([7] ! 0) = PDict (AList.update ''text'' (PStr ([''delta''] ! 0)) md)" by blast
  then have h: "heap ?s' 7 = PDict [(''source'', PStr ''web''), (''text'', PStr ''delta'')]"
    by (simp add: m)
  from a r h caller_state_simps show ?thesis by simp
qed

section \<open>add, then get\<close>

lemma wf_stored_record:
  "h (fst (snd (snd tup))) = PDict md \<Longrightarrow> wf_doc (stored_record tup h)"
  by (cases tup) (simp add: stored_record_def wf_doc_def)

lemma stored_record_fields:
  "map_of (stored_record (i, d, m, e) h) ''identifier'' = Some (PStr i)"
  "map_of (stored_record (i, d, m, e) h) ''metadata'' = Some (set_text d (h m))"
  by (simp_all add: stored_record_def)

lemma wf_doc_fields:
  "wf_doc d \<Longrightarrow> map_of d ''identifier'' \<noteq> None \<and> map_of d ''metadata'' \<noteq> None"
  unfolding wf_doc_def by (auto split: option.splits)

text \<open>
  With the limit given as 0, the record is found.  Let the store read
  \<open>{"identifier": {"$in": ids}}\<close> as membership of the identifier in \<open>ids\<close>, and let the
  collection hold records of the data model.  After \<open>add(documents, metadatas, ids)\<close> has
  returned, \<open>get(ids=[id], limit=0)\<close> for an id it stored succeeds, and its result holds
  that id and, at the same position, the metadata stored for it: the caller's mapping with
  \<open>text\<close> set to the document.
\<close>

lemma add_then_get_unlimited:
  assumes "\<And>vs d. sat ''identifier'' (PDict [(''$in'', PList vs)]) d =
                   (\<exists>v \<in> set vs. map_of d ''identifier'' = Some v)"
    and "add s documents metadatas ids = (Inr (), s')"
    and "coll s = Inr n" and "embedder s = Some f"
    and "\<forall>d \<in> set (docs_of s n). wf_doc d"
    and "k < length ids" and "k < length documents" and "k < length metadatas"
    and "k < length (f documents)"
  shows "\<exists>md rids rmds. heap s (metadatas ! k) = PDict md
      \<and> fst (get sat s' (Some [ids ! k]) None (Some 0)) = Inr (rids, rmds)
      \<and> (PStr (ids ! k), PDict (AList.update ''text'' (PStr (documents ! k)) md)) \<in> set (zip rids rmds)
      \<and> PStr (ids ! k) \<in> set rids
      \<and> PDict (AList.update ''text'' (PStr (documents ! k)) md) \<in> set rmds"
proof -
  define ts where "ts = zip ids (zip documents (zip metadatas (f documents)))"
  have loop: "add_loop s ts = (Inr (), s')"
    using assms(2,4) by (simp add: add_def ts_def)
  have k: "k < length ts" and nth: "ts ! k = (ids ! k, documents ! k, metadatas ! k, f documents ! k)"
    unfolding ts_def using assms(6-9) by (rule zip4_nth)+
  from k have kin: "ts ! k \<in> set ts" by simp
  note dicts = add_loop_dicts[OF loop assms(3)]
  from dicts kin obtain md where md: "heap s (metadatas ! k) = PDict md"
    by (auto simp: nth)
  from add_loop_docs[OF loop assms(3)]
  have c': "coll s' = Inr n"
    and docs: "docs_of s' n = docs_of s n @ map (\<lambda>tup. stored_record tup (heap s)) ts" by blast+
  define r where "r = stored_record (ts ! k) (heap s)"
  have rin: "r \<in> set (docs_of s' n)"
    unfolding r_def docs using kin by simp
  have wf: "\<forall>d \<in> set (docs_of s' n). wf_doc d"
    unfolding docs using assms(5) dicts wf_stored_record by auto
  define q where "q = get_query (Some [ids ! k]) None"
  have q: "q = [(''identifier'', PDict [(''$in'', PList [PStr (ids ! k)])])]"
    by (simp add: q_def get_query_def)
  have m: "matches sat q d = (map_of d ''identifier'' = Some (PStr (ids ! k)))" for d
    by (simp add: q matches_def assms(1))
  define cursor where "cursor = filter (matches sat q) (docs_of s' n)"
  have ri: "map_of r ''identifier'' = Some (PStr (ids ! k))"
    and rm: "map_of r ''metadata'' = Some (PDict (AList.update ''text'' (PStr (documents ! k)) md))"
    unfolding r_def nth by (simp_all add: stored_record_fields md)
  have rc: "r \<in> set cursor"
    unfolding cursor_def using rin ri by (simp add: m)
  have "\<forall>d \<in> set cursor. map_of d ''identifier'' \<noteq> None \<and> map_of d ''metadata'' \<noteq> None"
    unfolding cursor_def using wf wf_doc_fields by auto
  from get_loop_fields[OF this, of "[]" "[]"]
  have gl: "get_loop cursor [] [] =
      Inr (map (\<lambda>d. get_default d ''identifier'' PNone) cursor,
           map (\<lambda>d. get_default d ''metadata'' PNone) cursor)" by simp
  have g: "fst (get sat s' (Some [ids ! k]) None (Some 0)) =
      Inr (map (\<lambda>d. get_default d ''identifier'' PNone) cursor,
           map (\<lambda>d. get_default d ''metadata'' PNone) cursor)"
    unfolding get_def q_def[symmetric] coll_find_def using c' by (simp add: cursor_def[symmetric] gl)
  have z: "zip (map (\<lambda>d. get_default d ''identifier'' PNone) cursor)
               (map (\<lambda>d. get_default d ''metadata'' PNone) cursor) =
           map (\<lambda>d. (get_default d ''identifier'' PNone, get_default d ''metadata'' PNone)) cursor"
    by (simp add: zip_map_map zip_same_conv_map)
  have gi: "get_default r ''identifier'' PNone = PStr (ids ! k)"
    and gm: "get_default r ''metadata'' PNone = PDict (AList.update ''text'' (PStr (documents ! k)) md)"
    by (simp_all add: get_default_def ri rm)
  have pair: "(PStr (ids ! k), PDict (AList.update ''text'' (PStr (documents ! k)) md)) \<in>
      set (zip (map (\<lambda>d. get_default d ''identifier'' PNone) cursor)
               (map (\<lambda>d. get_default d ''metadata'' PNone) cursor))"
    unfolding z using rc gi gm by force
  from pair have "PStr (ids ! k) \<in> set (map (\<lambda>d. get_default d ''identifier'' PNone) cursor)"
    and "PDict (AList.update ''text'' (PStr (documents ! k)) md) \<in>
         set (map (\<lambda>d. get_default d ''metadata'' PNone) cursor)"
    by (auto dest: set_zip_leftD set_zip_rightD)
  with md g pair show ?thesis by blast
qed

text \<open>
  Claim C2.  The call of the claim, \<open>get(ids=[id])\<close>, leaves \<open>limit\<close> at its default
  \<open>None\<close>, and \<open>get\<close> passes that on to \<open>find\<close>, which refuses it.  So after \<open>add\<close> has
  returned, \<open>get(ids=[id])\<close> raises \<open>TypeError\<close> and returns nothing; no call reaches the
  store and the state is as \<open>add\<close> left it.
\<close>

theorem add_then_get_default_limit:
  assumes "add s documents metadatas ids = (Inr (), s')" and "coll s = Inr n"
  shows "get sat s' (Some [ids ! k]) None None = (Inl TypeError, s')"
proof -
  from assms(1) obtain f where f: "embedder s = Some f"
    by (cases "embedder s") (auto simp: add_def)
  from assms(1) f have "add_loop s (zip ids (zip documents (zip metadatas (f documents)))) = (Inr (), s')"
    by (simp add: add_def)
  from add_loop_docs[OF this assms(2)] have "coll s' = Inr n" by blast
  then show ?thesis by (simp add: get_def coll_find_def)
qed

theorem add_then_get_default_limit_witness:
  "add caller_state [''delta''] [7] [''d''] = (Inr (), snd (add caller_state [''delta''] [7] [''d'']))
   \<and> coll caller_state = Inr ''notes''
   \<and> get example_sat (snd (add caller_state [''delta''] [7] [''d''])) (Some [''d'']) None None =
       (Inl TypeError, snd (add caller_state [''delta''] [7] [''d'']))"
proof -
  have a: "add caller_state [''delta''] [7] [''d''] = (Inr (), snd (add caller_state [''delta''] [7] [''d'']))"
    using caller_add_ok by (simp add: prod_eq_iff)
  from add_then_get_default_limit[OF a caller_state_simps(1), of example_sat 0] a caller_state_simps(1)
  show ?thesis by simp
qed

section \<open>reset\<close>

text \<open>
  The attribute \<open>collection_name\<close> always holds the configuration's collection name: both
  methods that assign it take it from there.
\<close>

lemma initialize_names_collection:
  "initialize s = (Inr (), s') \<Longrightarrow> collection_name s' = Some (cfg_collection_name (config s'))"
  by (auto simp: initialize_def db_list_collection_names_def db_create_collection_def
        get_or_create_collection_def Let_def split: if_splits option.splits)

lemma set_collection_name_names_collection:
  "set_collection_name s name = (Inr (), s') \<Longrightarrow>
   collection_name s' = Some (cfg_collection_name (config s'))"
  by (auto simp: set_collection_name_def get_or_create_collection_def Let_def split: pyval.splits)

lemma reset_result:
  assumes "embedder s = Some f"
    and "collection_name s = Some (cfg_collection_name (config s))"
    and "reset s = (Inr (), s')"
  shows "\<exists>n. cfg_collection_name (config s) = Some n
      \<and> s' = s\<lparr>collection_name := Some (Some n),
                collections := (collections s)(n \<mapsto> []),
                calls := calls s @ [DropCollection n, ListCollectionNames, CreateCollection n]\<rparr>"
proof (cases "cfg_collection_name (config s)")
  case None
  with assms(2,3) show ?thesis
    by (simp add: reset_def db_drop_collection_def coll_def)
next
  case (Some n)
  with assms(2) have c: "coll s = Inr n" by (simp add: coll_def)
  have "reset s = (Inr (), s\<lparr>collection_name := Some (Some n),
                collections := (collections s)(n \<mapsto> []),
                calls := calls s @ [DropCollection n, ListCollectionNames, CreateCollection n]\<rparr>)"
    using assms(1) Some c
    by (simp add: reset_def db_drop_collection_def initialize_def db_list_collection_names_def
          db_create_collection_def get_or_create_collection_def Let_def)
  with assms(3) Some show ?thesis by simp
qed

lemma get_loop_Nil: "get_loop [] [] [] = Inr ([], [])" by simp

lemma get_succeeds:
  assumes "coll s = Inr n" and "\<forall>d \<in> set (docs_of s n). wf_doc d"
  shows "\<exists>r. fst (get sat s ids wh (Some l)) = Inr r"
proof -
  define cursor where
    "cursor = limited (Some l) (filter (matches sat (get_query ids wh)) (docs_of s n))"
  have "set cursor \<subseteq> set (docs_of s n)"
    unfolding cursor_def
    using set_limited[of "Some l" "filter (matches sat (get_query ids wh)) (docs_of s n)"] by auto
  with assms(2) have "\<forall>d \<in> set cursor. map_of d ''identifier'' \<noteq> None \<and> map_of d ''metadata'' \<noteq> None"
    using wf_doc_fields by blast
  from get_loop_fields[OF this, of "[]" "[]"] obtain r where r: "get_loop cursor [] [] = Inr r"
    by blast
  have find: "coll_find sat s (get_query ids wh) (Some l) =
        (Inr cursor, s\<lparr>calls := calls s @ [Find n (get_query ids wh) (Some l)]\<rparr>)"
    unfolding cursor_def coll_find_def using assms(1) by simp
  have "fst (get sat s ids wh (Some l)) = Inr r"
    unfolding get_def by (simp add: find r)
  then show ?thesis ..
qed

lemma query_succeeds:
  assumes "coll s = Inr n" and "\<forall>d \<in> set (docs_of s n). wf_doc d"
    and "embedder s = Some f" and "f [input_query] \<noteq> []"
  shows "\<exists>hits. fst (query sat s input_query n_results wh citations) = Inr hits"
proof -
  from assms(4) obtain v vs where v: "f [input_query] = v # vs" by (cases "f [input_query]") auto
  define cursor where
    "cursor = limited (Some n_results) (filter (matches sat (query_filter v wh)) (docs_of s n))"
  have "set cursor \<subseteq> set (docs_of s n)"
    unfolding cursor_def
    using set_limited[of "Some n_results" "filter (matches sat (query_filter v wh)) (docs_of s n)"] by auto
  with assms(2) have "\<forall>d \<in> set cursor. wf_doc d" by blast
  from query_loop_hits[OF this, of citations "[]"] obtain hits where
    loop: "query_loop citations cursor [] = Inr hits" by auto
  have find: "coll_find sat s (query_filter v wh) (Some n_results) =
        (Inr cursor, s\<lparr>calls := calls s @ [Find n (query_filter v wh) (Some n_results)]\<rparr>)"
    unfolding cursor_def coll_find_def using assms(1) by simp
  have "fst (query sat s input_query n_results wh citations) = Inr hits"
    unfolding query_def using assms(3) v by (simp add: find loop)
  then show ?thesis ..
qed

text \<open>
  Claim C5, as the code has it.  \<open>reset\<close> drops the collection named by the attribute
  \<open>collection_name\<close> and then initialises from the configuration's name.  On an adapter
  with an embedder whose attribute is the configuration's name, once \<open>reset()\<close> has
  returned the collection exists and is empty: \<open>count()\<close> is 0, \<open>get\<close> with an integer
  limit returns no records, \<open>delete\<close> succeeds, \<open>query\<close> returns no entries (the embedder
  giving its one vector), and \<open>add\<close> of metadata mappings succeeds, after which \<open>count()\<close>
  is the number of records added and \<open>get\<close> and \<open>query\<close> still succeed.
\<close>

theorem reset_then_usable:
  assumes "embedder s = Some f"
    and "collection_name s = Some (cfg_collection_name (config s))"
    and "reset s = (Inr (), s')"
  shows "\<exists>n. coll s' = Inr n \<and> collections s' n = Some [] \<and> embedder s' = Some f
       \<and> fst (count sat s') = Inr 0
       \<and> fst (get sat s' ids wh (Some l)) = Inr ([], [])
       \<and> fst (delete_where sat s' wh') = Inr ()
       \<and> (f [input_query] \<noteq> [] \<longrightarrow> fst (query sat s' input_query n_results wh' citations) = Inr [])
       \<and> ((\<forall>m \<in> set metadatas. \<exists>md. heap s' m = PDict md) \<longrightarrow>
            fst (add s' documents metadatas ids') = Inr ()
            \<and> fst (count sat (snd (add s' documents metadatas ids'))) =
                Inr (int (length (zip ids' (zip documents (zip metadatas (f documents))))))
            \<and> (\<exists>r. fst (get sat (snd (add s' documents metadatas ids')) ids wh (Some l)) = Inr r)
            \<and> (f [input_query] \<noteq> [] \<longrightarrow>
                 (\<exists>hits. fst (query sat (snd (add s' documents metadatas ids'))
                                input_query n_results wh' citations) = Inr hits)))"
proof -
  from reset_result[OF assms] obtain n where
    s': "s' = s\<lparr>collection_name := Some (Some n),
                collections := (collections s)(n \<mapsto> []),
                calls := calls s @ [DropCollection n, ListCollectionNames, CreateCollection n]\<rparr>"
    by blast
  have c: "coll s' = Inr n" by (simp add: s' coll_def)
  have e: "embedder s' = Some f" using assms(1) by (simp add: s')
  have cs: "collections s' n = Some []" by (simp add: s')
  have d: "docs_of s' n = []" by (simp add: docs_of_def cs)
  have cnt: "fst (count sat s') = Inr 0"
    by (simp add: count_def coll_count_documents_def c d)
  have g: "fst (get sat s' ids wh (Some l)) = Inr ([], [])"
    by (simp add: get_def coll_find_def c d)
  have del: "fst (delete_where sat s' wh') = Inr ()"
    by (simp add: delete_where_def coll_delete_many_def c)
  have q: "fst (query sat s' input_query n_results wh' citations) = Inr []"
    if "f [input_query] \<noteq> []"
  proof -
    from that obtain v vs where v: "f [input_query] = v # vs" by (cases "f [input_query]") auto
    show ?thesis by (simp add: query_def e v coll_find_def c d)
  qed
  have a: "fst (add s' documents metadatas ids') = Inr ()
            \<and> fst (count sat (snd (add s' documents metadatas ids'))) =
                Inr (int (length (zip ids' (zip documents (zip metadatas (f documents))))))
            \<and> (\<exists>r. fst (get sat (snd (add s' documents metadatas ids')) ids wh (Some l)) = Inr r)
            \<and> (f [input_query] \<noteq> [] \<longrightarrow>
                 (\<exists>hits. fst (query sat (snd (add s' documents metadatas ids'))
                                input_query n_results wh' citations) = Inr hits))"
    if dicts: "\<forall>m \<in> set metadatas. \<exists>md. heap s' m = PDict md"
  proof -
    define ts where "ts = zip ids' (zip documents (zip metadatas (f documents)))"
    define s2 where "s2 = snd (add s' documents metadatas ids')"
    have ad: "add s' documents metadatas ids' = add_loop s' ts"
      by (simp add: add_def e ts_def)
    have td: "\<forall>tup \<in> set ts. \<exists>md. heap s' (fst (snd (snd tup))) = PDict md"
    proof
      fix tup assume "tup \<in> set ts"
      then obtain j where j: "j < length ts" and tj: "ts ! j = tup"
        by (auto simp: in_set_conv_nth)
      from j have "j < length (zip ids' (zip documents (zip metadatas (f documents))))"
        by (simp add: ts_def)
      from zip4_addr[OF this] tj have "fst (snd (snd tup)) = metadatas ! j" and "j < length metadatas"
        by (simp_all add: ts_def)
      then have "fst (snd (snd tup)) \<in> set metadatas" by simp
      with dicts show "\<exists>md. heap s' (fst (snd (snd tup))) = PDict md" by blast
    qed
    from add_loop_succeeds[OF c td] have ok: "fst (add s' documents metadatas ids') = Inr ()"
      by (simp add: ad)
    then have loop: "add_loop s' ts = (Inr (), s2)"
      by (simp add: ad[symmetric] s2_def prod_eq_iff)
    from add_loop_docs[OF loop c] have c2: "coll s2 = Inr n" and e2: "embedder s2 = Some f"
      and d2: "docs_of s2 n = map (\<lambda>tup. stored_record tup (heap s')) ts"
      by (simp_all add: d e)
    have wf2: "\<forall>d \<in> set (docs_of s2 n). wf_doc d"
      unfolding d2 using td wf_stored_record by auto
    have cnt2: "fst (count sat s2) = Inr (int (length ts))"
      by (simp add: count_def coll_count_documents_def c2 d2 matches_Nil)
    from get_succeeds[OF c2 wf2] have g2: "\<exists>r. fst (get sat s2 ids wh (Some l)) = Inr r" .
    have q2: "\<exists>hits. fst (query sat s2 input_query n_results wh' citations) = Inr hits"
      if "f [input_query] \<noteq> []"
      using c2 wf2 e2 that by (rule query_succeeds)
    from ok cnt2 g2 q2 show ?thesis
      unfolding s2_def ts_def by blast
  qed
  from c cs e cnt g del q a show ?thesis by blast
qed


lemma caller_reset_ok:
  "reset caller_state =
     (Inr (), caller_state\<lparr>collection_name := Some (Some ''notes''),
                collections := (collections caller_state)(''notes'' \<mapsto> []),
                calls := calls caller_state @
                  [DropCollection ''notes'', ListCollectionNames, CreateCollection ''notes'']\<rparr>)"
  by (simp add: reset_def db_drop_collection_def initialize_def db_list_collection_names_def
        db_create_collection_def get_or_create_collection_def Let_def caller_state_simps
        caller_state_def example_state_def example_config_def coll_def)

theorem reset_then_usable_witness:
  "embedder caller_state = Some example_embedder
   \<and> collection_name caller_state = Some (cfg_collection_name (config caller_state))
   \<and> reset caller_state = (Inr (), snd (reset caller_state))
   \<and> length (docs_of caller_state ''notes'') = 3
   \<and> fst (count example_sat (snd (reset caller_state))) = Inr 0
   \<and> fst (get example_sat (snd (reset caller_state)) None None (Some 0)) = Inr ([], [])
   \<and> fst (delete_where example_sat (snd (reset caller_state)) example_where) = Inr ()
   \<and> fst (query example_sat (snd (reset caller_state)) ''alpha'' 2 example_where True) = Inr []
   \<and> fst (add (snd (reset caller_state)) [''delta''] [7] [''d'']) = Inr ()
   \<and> fst (count example_sat (snd (add (snd (reset caller_state)) [''delta''] [7] [''d'']))) = Inr 1"
proof -
  let ?s' = "snd (reset caller_state)"
  have h1: "collection_name caller_state = Some (cfg_collection_name (config caller_state))"
    by (simp add: caller_state_def example_state_def example_config_def)
  have h2: "reset caller_state = (Inr (), ?s')"
    by (simp add: caller_reset_ok)
  have hp: "heap ?s' 7 = PDict [(''source'', PStr ''web'')]"
    by (simp add: caller_reset_ok caller_state_simps)
  have ne: "example_embedder [''alpha''] \<noteq> []" by (simp add: example_embedder_def)
  have dicts: "\<forall>m \<in> set [7]. \<exists>md. heap ?s' m = PDict md" by (simp add: hp)
  have len: "int (length (zip [''d''] (zip [''delta''] (zip [7::nat] (example_embedder [''delta'']))))) = 1"
    by (simp add: example_embedder_def)
  from reset_then_usable[OF caller_state_simps(2) h1 h2, of example_sat None None 0 example_where
      "''alpha''" 2 True "[7]" "[''delta'']" "[''d'']"]
  obtain n where "coll ?s' = Inr n" and "fst (count example_sat ?s') = Inr 0"
    and "fst (get example_sat ?s' None None (Some 0)) = Inr ([], [])"
    and "fst (delete_where example_sat ?s' example_where) = Inr ()"
    and "example_embedder [''alpha''] \<noteq> [] \<longrightarrow>
           fst (query example_sat ?s' ''alpha'' 2 example_where True) = Inr []"
    and "(\<forall>m \<in> set [7]. \<exists>md. heap ?s' m = PDict md) \<longrightarrow>
            fst (add ?s' [''delta''] [7] [''d'']) = Inr ()
            \<and> fst (count example_sat (snd (add ?s' [''delta''] [7] [''d'']))) =
                Inr (int (length (zip [''d''] (zip [''delta''] (zip [7::nat] (example_embedder [''delta''])))))) "
    by blast
  with ne dicts len caller_state_simps(2) h1 h2 show ?thesis
    by (simp add: caller_state_simps docs_example)
qed

text \<open>
  The claim as stated asks only for an embedder.  On the adapter whose attribute names
  \<open>old\<close> while its configuration names \<open>notes\<close>, \<open>reset()\<close> returns: it has dropped \<open>old\<close>
  and now points at \<open>notes\<close>, which it found in place with its three records, and
  \<open>count()\<close> is 3.
\<close>

theorem reset_drift_counterexample:
  "embedder drift_state = Some example_embedder
   \<and> fst (reset drift_state) = Inr ()
   \<and> fst (count example_sat (snd (reset drift_state))) = Inr 3"
proof -
  have r: "reset drift_state =
     (Inr (), drift_state\<lparr>collection_name := Some (Some ''notes''),
                collections := (collections drift_state)(''old'' := None),
                calls := calls drift_state @ [DropCollection ''old'', ListCollectionNames]\<rparr>)"
    by (simp add: reset_def db_drop_collection_def initialize_def db_list_collection_names_def
        db_create_collection_def get_or_create_collection_def Let_def
        drift_state_def example_state_def example_config_def coll_def)
  have e: "embedder drift_state = Some example_embedder"
    by (simp add: drift_state_def example_state_def)
  have c: "fst (count example_sat (snd (reset drift_state))) = Inr 3"
    unfolding r snd_conv
    by (simp add: count_def coll_count_documents_def coll_def docs_of_def matches_Nil
        drift_state_def example_state_def)
  from e r c show ?thesis by simp
qed

end
